theory Spec2Isabelle
  imports Complex_Main
begin

section \<open>Python's \<open>decimal.Decimal\<close> under the default context\<close>

text \<open>
  Every numeric field of \<open>cdes_fs/models.py\<close> is a \<open>decimal.Decimal\<close>, and the methods
  of the models use its operators \<open>*\<close>, \<open>+=\<close>, \<open>/\<close> and \<open>>\<close>. The module never changes
  the arithmetic context, so the operators run under Python's default context:
  precision 28, rounding \<open>ROUND_HALF_EVEN\<close>, \<open>Emin = -999999\<close>, \<open>Emax = 999999\<close>,
  \<open>clamp = 0\<close>, with the signals \<open>InvalidOperation\<close>, \<open>DivisionByZero\<close> and \<open>Overflow\<close>
  trapped (they raise) and all others (\<open>Inexact\<close>, \<open>Rounded\<close>, \<open>Underflow\<close>, \<open>Subnormal\<close>,
  \<open>Clamped\<close>) silent.

  A decimal is a sign (\<open>True\<close> is negative), a coefficient and an exponent, or one of the
  special values. The payload of a NaN is kept as a number.
\<close>

datatype Decimal =
    Finite bool nat int
  | Infinity bool
  | NaN bool nat
  | sNaN bool nat

text \<open>
  The exceptions of the model: the three trapped signals of \<open>decimal\<close>, the \<open>ValueError\<close>
  of a failed \<open>Enum\<close> lookup, and \<open>ValidationError\<close>, which the specification names and
  no code path of the module raises.
\<close>

datatype py_exception =
  InvalidOperation | DivisionByZero | Overflow | ValueError | ValidationError

definition prec :: nat where "prec = 28"
definition Emax :: int where "Emax = 999999"
definition Emin :: int where "Emin = - 999999"

definition Etiny :: int where "Etiny = Emin - int prec + 1"
definition Etop :: int where "Etop = Emax - int prec + 1"

text \<open>\<open>len(str(n))\<close>: the number of decimal digits of a coefficient; \<open>0\<close> has one digit.\<close>

fun ndigits :: "nat \<Rightarrow> nat" where
  "ndigits n = (if n < 10 then 1 else Suc (ndigits (n div 10)))"

declare ndigits.simps [simp del]

text \<open>
  \<open>ROUND_HALF_EVEN\<close> when the last \<open>k\<close> digits of the coefficient \<open>c\<close> are dropped
  (\<open>k > 0\<close>): the kept digits are incremented when the dropped part is above one half of
  a unit, or exactly one half with the kept part odd.
\<close>

definition round_half_even :: "nat \<Rightarrow> nat \<Rightarrow> nat" where
  "round_half_even c k =
     (let q = c div 10 ^ k; r = c mod 10 ^ k; half = 5 * 10 ^ (k - 1)
      in if half < r \<or> (r = half \<and> odd q) then q + 1 else q)"

text \<open>
  \<open>Decimal._fix\<close> on a finite number: round to the context's precision and check the
  exponent range. A zero keeps its sign and has its exponent clamped into
  \<open>[Etiny, Emax]\<close>. A number whose adjusted exponent exceeds \<open>Emax\<close> raises \<open>Overflow\<close>;
  a subnormal number is rounded at \<open>Etiny\<close> (silently, possibly to zero).
\<close>

definition dec_fix :: "bool \<Rightarrow> nat \<Rightarrow> int \<Rightarrow> py_exception + Decimal" where
  "dec_fix s c e =
     (if c = 0 then Inr (Finite s 0 (min (max e Etiny) Emax))
      else
        let exp_min0 = int (ndigits c) + e - int prec in
        if Etop < exp_min0 then Inl Overflow
        else
          let exp_min = max exp_min0 Etiny in
          if e < exp_min then
            let q = round_half_even c (nat (exp_min - e));
                carry = (prec < ndigits q);
                coeff = (if carry then q div 10 else q);
                exp_new = (if carry then exp_min + 1 else exp_min)
            in if Etop < exp_new then Inl Overflow
               else Inr (Finite s coeff exp_new)
          else Inr (Finite s c e))"

text \<open>\<open>Decimal._fix_nan\<close>: a payload longer than the precision keeps its last 28 digits.\<close>

definition fix_nan :: "bool \<Rightarrow> nat \<Rightarrow> Decimal" where
  "fix_nan s p = NaN s (p mod 10 ^ prec)"

text \<open>
  \<open>Decimal._check_nans\<close>: a signalling NaN raises \<open>InvalidOperation\<close>, a quiet NaN is the
  result of the operation (the first operand's if both are NaN); \<open>None\<close> when no operand
  is a NaN.
\<close>

fun check_nans :: "Decimal \<Rightarrow> Decimal \<Rightarrow> (py_exception + Decimal) option" where
  "check_nans (sNaN s p) y = Some (Inl InvalidOperation)"
| "check_nans x (sNaN s p) = Some (Inl InvalidOperation)"
| "check_nans (NaN s p) y = Some (Inr (fix_nan s p))"
| "check_nans x (NaN s p) = Some (Inr (fix_nan s p))"
| "check_nans x y = None"

text \<open>\<open>Decimal.__mul__\<close>.\<close>

fun dec_mul :: "Decimal \<Rightarrow> Decimal \<Rightarrow> py_exception + Decimal" where
  "dec_mul (Finite s1 c1 e1) (Finite s2 c2 e2) = dec_fix (s1 \<noteq> s2) (c1 * c2) (e1 + e2)"
| "dec_mul (Infinity s1) (Finite s2 c2 e2) =
     (if c2 = 0 then Inl InvalidOperation else Inr (Infinity (s1 \<noteq> s2)))"
| "dec_mul (Finite s1 c1 e1) (Infinity s2) =
     (if c1 = 0 then Inl InvalidOperation else Inr (Infinity (s1 \<noteq> s2)))"
| "dec_mul (Infinity s1) (Infinity s2) = Inr (Infinity (s1 \<noteq> s2))"
| "dec_mul x y = the (check_nans x y)"

text \<open>
  \<open>Decimal.__add__\<close>: the exact sum at the smaller exponent, then \<open>_fix\<close>. A zero sum is
  negative only when both operands are negative (the rounding mode is not
  \<open>ROUND_FLOOR\<close>).
\<close>

definition signed :: "bool \<Rightarrow> nat \<Rightarrow> int" where
  "signed s c = (if s then - int c else int c)"

fun dec_add :: "Decimal \<Rightarrow> Decimal \<Rightarrow> py_exception + Decimal" where
  "dec_add (Finite s1 c1 e1) (Finite s2 c2 e2) =
     (let e = min e1 e2;
          v = signed s1 (c1 * 10 ^ nat (e1 - e)) + signed s2 (c2 * 10 ^ nat (e2 - e))
      in if v = 0 then dec_fix (s1 \<and> s2) 0 e else dec_fix (v < 0) (nat \<bar>v\<bar>) e)"
| "dec_add (Infinity s1) (Finite s2 c2 e2) = Inr (Infinity s1)"
| "dec_add (Finite s1 c1 e1) (Infinity s2) = Inr (Infinity s2)"
| "dec_add (Infinity s1) (Infinity s2) =
     (if s1 \<noteq> s2 then Inl InvalidOperation else Inr (Infinity s1))"
| "dec_add x y = the (check_nans x y)"

text \<open>
  \<open>Decimal.__truediv__\<close>. For finite non-zero operands the coefficient is computed with
  \<open>prec + 1\<close> digits beyond the divisor's length; an inexact quotient whose last digit is
  0 or 5 is made sticky by adding one, an exact quotient has trailing zeros removed
  while the exponent is below the ideal exponent \<open>e1 - e2\<close>.
\<close>

function strip_zeros :: "nat \<Rightarrow> int \<Rightarrow> int \<Rightarrow> nat \<times> int" where
  "strip_zeros coeff e ideal =
     (if e < ideal \<and> coeff mod 10 = 0 then strip_zeros (coeff div 10) (e + 1) ideal
      else (coeff, e))"
  by pat_completeness auto
termination
  by (relation "measure (\<lambda>(coeff, e, ideal). nat (ideal - e))") auto

declare strip_zeros.simps [simp del]

definition div_finite :: "bool \<Rightarrow> nat \<Rightarrow> int \<Rightarrow> nat \<Rightarrow> int \<Rightarrow> py_exception + Decimal" where
  "div_finite s c1 e1 c2 e2 =
     (if c1 = 0 then dec_fix s 0 (e1 - e2)
      else
        let shift = int (ndigits c2) - int (ndigits c1) + int prec + 1;
            e = e1 - e2 - shift;
            n = (if 0 \<le> shift then c1 * 10 ^ nat shift else c1);
            d = (if 0 \<le> shift then c2 else c2 * 10 ^ nat (- shift));
            coeff = n div d;
            remainder = n mod d
        in if remainder \<noteq> 0
           then dec_fix s (if coeff mod 5 = 0 then coeff + 1 else coeff) e
           else (case strip_zeros coeff e (e1 - e2) of (coeff', e') \<Rightarrow> dec_fix s coeff' e'))"

fun dec_div :: "Decimal \<Rightarrow> Decimal \<Rightarrow> py_exception + Decimal" where
  "dec_div (Finite s1 c1 e1) (Finite s2 c2 e2) =
     (if c2 = 0 then (if c1 = 0 then Inl InvalidOperation else Inl DivisionByZero)
      else div_finite (s1 \<noteq> s2) c1 e1 c2 e2)"
| "dec_div (Infinity s1) (Finite s2 c2 e2) = Inr (Infinity (s1 \<noteq> s2))"
| "dec_div (Finite s1 c1 e1) (Infinity s2) = Inr (Finite (s1 \<noteq> s2) 0 Etiny)"
| "dec_div (Infinity s1) (Infinity s2) = Inl InvalidOperation"
| "dec_div x y = the (check_nans x y)"

text \<open>
  \<open>Decimal._cmp\<close> on two numbers that are not NaN: \<open>-1\<close>, \<open>0\<close> or \<open>1\<close>. Finite numbers are
  compared by value, at their common smaller exponent; both zeros are equal.
\<close>

fun dec_cmp :: "Decimal \<Rightarrow> Decimal \<Rightarrow> int" where
  "dec_cmp (Finite s1 c1 e1) (Finite s2 c2 e2) =
     (let e = min e1 e2;
          v1 = signed s1 (c1 * 10 ^ nat (e1 - e));
          v2 = signed s2 (c2 * 10 ^ nat (e2 - e))
      in if v1 < v2 then - 1 else if v1 = v2 then 0 else 1)"
| "dec_cmp (Infinity s1) (Infinity s2) = (if s1 = s2 then 0 else if s1 then - 1 else 1)"
| "dec_cmp (Infinity s1) y = (if s1 then - 1 else 1)"
| "dec_cmp x (Infinity s2) = (if s2 then 1 else - 1)"
| "dec_cmp x y = 0"

fun is_nan :: "Decimal \<Rightarrow> bool" where
  "is_nan (NaN s p) = True"
| "is_nan (sNaN s p) = True"
| "is_nan x = False"

text \<open>
  \<open>Decimal.__gt__\<close>: an ordering comparison that involves a NaN (quiet or signalling)
  signals \<open>InvalidOperation\<close>, which the default context traps.
\<close>

definition dec_gt :: "Decimal \<Rightarrow> Decimal \<Rightarrow> py_exception + bool" where
  "dec_gt x y = (if is_nan x \<or> is_nan y then Inl InvalidOperation else Inr (0 < dec_cmp x y))"

text \<open>\<open>Decimal.__eq__\<close>: a signalling NaN raises, a quiet NaN is unequal to everything.\<close>

fun is_snan :: "Decimal \<Rightarrow> bool" where
  "is_snan (sNaN s p) = True"
| "is_snan x = False"

definition dec_eq :: "Decimal \<Rightarrow> Decimal \<Rightarrow> py_exception + bool" where
  "dec_eq x y =
     (if is_snan x \<or> is_snan y then Inl InvalidOperation
      else if is_nan x \<or> is_nan y then Inr False
      else Inr (dec_cmp x y = 0))"

text \<open>\<open>Decimal(n)\<close> for a Python \<open>int\<close>: exact, whatever the number of digits.\<close>

definition dec_of_int :: "int \<Rightarrow> Decimal" where
  "dec_of_int n = Finite (n < 0) (nat \<bar>n\<bar>) 0"


section \<open>The data model of \<open>cdes_fs/models.py\<close>\<close>

subsection \<open>Enumerated vocabularies\<close>

text \<open>
  Each vocabulary is a \<open>class X(str, Enum)\<close>. The members are the constructors; the
  value table gives the string of each member, and the call \<open>X(value)\<close> looks a string
  up in the table and raises \<open>ValueError\<close> when no member has it.
\<close>

datatype IngredientType =
  FLOWER | CONCENTRATE | DISTILLATE | ISOLATE | TINCTURE | BUTTER | OIL | RSO | KIEF
  | HASH | ROSIN | SAUCE

datatype IngredientForm = SOLID | LIQUID | POWDER | PASTE | CRYSTAL

datatype DosageUnit = MG_THC | MG_CBD | MG_TOTAL | GRAMS | DosageUnit_ML

datatype RecipeCategory =
  APPETIZER | MAIN_COURSE | DESSERT | BEVERAGE | SNACK | SAUCE | BAKED_GOOD | CONFECTION
  | SAVORY

datatype DietaryRestriction =
  VEGAN | VEGETARIAN | GLUTEN_FREE | DAIRY_FREE | NUT_FREE | SOY_FREE | KETO | PALEO
  | LOW_SUGAR | ORGANIC

datatype AllergenType =
  MILK | EGGS | FISH | SHELLFISH | TREE_NUTS | PEANUTS | WHEAT | SOY | SESAME

datatype ComplianceStatus = COMPLIANT | PENDING_REVIEW | NON_COMPLIANT | EXPIRED

definition IngredientType_members :: "(string \<times> IngredientType) list" where
  "IngredientType_members =
     [(''flower'', FLOWER), (''concentrate'', CONCENTRATE), (''distillate'', DISTILLATE),
      (''isolate'', ISOLATE), (''tincture'', TINCTURE), (''butter'', BUTTER), (''oil'', OIL),
      (''rso'', RSO), (''kief'', KIEF), (''hash'', HASH), (''rosin'', ROSIN),
      (''sauce'', IngredientType.SAUCE)]"

definition RecipeCategory_members :: "(string \<times> RecipeCategory) list" where
  "RecipeCategory_members =
     [(''appetizer'', APPETIZER), (''main_course'', MAIN_COURSE), (''dessert'', DESSERT),
      (''beverage'', BEVERAGE), (''snack'', SNACK), (''sauce'', RecipeCategory.SAUCE),
      (''baked_good'', BAKED_GOOD), (''confection'', CONFECTION), (''savory'', SAVORY)]"

definition enum_call :: "(string \<times> 'e) list \<Rightarrow> string \<Rightarrow> py_exception + 'e" where
  "enum_call members v = (case map_of members v of None \<Rightarrow> Inl ValueError | Some m \<Rightarrow> Inr m)"

definition IngredientType_call :: "string \<Rightarrow> py_exception + IngredientType" where
  "IngredientType_call = enum_call IngredientType_members"

definition RecipeCategory_call :: "string \<Rightarrow> py_exception + RecipeCategory" where
  "RecipeCategory_call = enum_call RecipeCategory_members"

text \<open>
  The models are plain \<open>@dataclass\<close> classes: the generated \<open>__init__\<close> assigns every
  argument to its field and checks nothing. A field annotated with a vocabulary therefore
  holds either a member or whatever other string the caller passed.
\<close>

datatype 'e enum_field = Member 'e | Unchecked string

subsection \<open>Records\<close>

type_synonym UUID = nat
type_synonym date = int
type_synonym datetime = int

record CannabisCOAReference =
  coa_id :: string
  batch_number :: string
  strain_name :: string
  lab_name :: "string option"
  test_date :: "date option"
  coa_url :: "string option"
  thc_percentage :: Decimal
  cbd_percentage :: Decimal
  total_cannabinoids :: Decimal
  passed_microbial :: bool
  passed_pesticides :: bool
  passed_heavy_metals :: bool
  passed_residual_solvents :: bool
  harvest_date :: "date option"
  expiration_date :: "date option"

record TerpeneProfile =
  coa_reference :: CannabisCOAReference
  myrcene :: Decimal
  limonene :: Decimal
  caryophyllene :: Decimal
  pinene :: Decimal
  linalool :: Decimal
  humulene :: Decimal
  terpinolene :: Decimal
  ocimene :: Decimal
  primary_flavors :: "string list"
  aroma_notes :: "string list"
  pairs_well_with :: "string list"
  cuisine_types :: "string list"

record CannabisIngredient =
  id :: UUID
  name :: string
  ingredient_type :: "IngredientType enum_field"
  form :: "IngredientForm enum_field"
  coa_reference :: "CannabisCOAReference option"
  terpene_profile :: "TerpeneProfile option"
  thc_mg_per_gram :: Decimal
  cbd_mg_per_gram :: Decimal
  is_decarboxylated :: bool
  decarb_temp_f :: "int option"
  decarb_time_minutes :: "int option"
  storage_temp_min_f :: int
  storage_temp_max_f :: int
  shelf_life_days :: int
  light_sensitive :: bool
  supplier_id :: "string option"
  supplier_name :: "string option"
  lot_number :: "string option"
  received_date :: "date option"

record Ingredient =
  id :: UUID
  name :: string
  category :: string
  unit :: string
  allergens :: "AllergenType enum_field list"
  dietary_info :: "DietaryRestriction enum_field list"
  supplier_id :: "string option"

record RecipeStep =
  step_number :: int
  instruction :: string
  duration_minutes :: "int option"
  temperature_f :: "int option"
  tips :: "string option"
  max_temp_warning :: bool
  decarb_step :: bool

record NutritionInfo =
  calories :: int
  fat_grams :: Decimal
  carbs_grams :: Decimal
  protein_grams :: Decimal
  fiber_grams :: Decimal
  sugar_grams :: Decimal
  sodium_mg :: int

record DosageInfo =
  thc_mg_per_serving :: Decimal
  cbd_mg_per_serving :: Decimal
  total_thc_mg :: Decimal
  total_cbd_mg :: Decimal
  servings :: int
  onset_time_minutes :: int
  duration_hours :: int
  recommended_for :: string
  high_dose_warning :: bool

record Recipe =
  id :: UUID
  name :: string
  description :: "string option"
  category :: "RecipeCategory enum_field"
  cannabis_ingredients :: "(CannabisIngredient \<times> Decimal) list"
  ingredients :: "(Ingredient \<times> string) list"
  steps :: "RecipeStep list"
  prep_time_minutes :: int
  cook_time_minutes :: int
  total_time_minutes :: int
  servings :: int
  dosage_info :: DosageInfo
  dietary_labels :: "DietaryRestriction enum_field list"
  allergens :: "AllergenType enum_field list"
  nutrition :: "NutritionInfo option"
  difficulty :: string
  chef_notes :: "string option"
  terpene_pairing_notes :: "string option"
  author :: "string option"
  created_at :: datetime
  updated_at :: datetime

subsection \<open>Construction\<close>

text \<open>
  The instances that the calls \<open>CannabisCOAReference(coa_id, batch_number, strain_name)\<close>,
  \<open>TerpeneProfile(coa_reference)\<close>, \<open>CannabisIngredient()\<close>, \<open>DosageInfo()\<close> and \<open>Recipe()\<close>
  build from the field defaults. The results of the default factories \<open>uuid4\<close> and
  \<open>datetime.utcnow\<close> are parameters.
\<close>

definition CannabisCOAReference_default :: "string \<Rightarrow> string \<Rightarrow> string \<Rightarrow> CannabisCOAReference" where
  "CannabisCOAReference_default c b n =
     \<lparr> coa_id = c, batch_number = b, strain_name = n, lab_name = None, test_date = None,
       coa_url = None, thc_percentage = Finite False 0 (- 2),
       cbd_percentage = Finite False 0 (- 2), total_cannabinoids = Finite False 0 (- 2),
       passed_microbial = True, passed_pesticides = True, passed_heavy_metals = True,
       passed_residual_solvents = True, harvest_date = None, expiration_date = None \<rparr>"

definition TerpeneProfile_default :: "CannabisCOAReference \<Rightarrow> TerpeneProfile" where
  "TerpeneProfile_default coa =
     \<lparr> TerpeneProfile.coa_reference = coa, myrcene = Finite False 0 (- 2), limonene = Finite False 0 (- 2),
       caryophyllene = Finite False 0 (- 2), pinene = Finite False 0 (- 2),
       linalool = Finite False 0 (- 2), humulene = Finite False 0 (- 2),
       terpinolene = Finite False 0 (- 2), ocimene = Finite False 0 (- 2),
       primary_flavors = [], aroma_notes = [], pairs_well_with = [], cuisine_types = [] \<rparr>"

definition CannabisIngredient_default :: "UUID \<Rightarrow> CannabisIngredient" where
  "CannabisIngredient_default uid =
     \<lparr> CannabisIngredient.id = uid, CannabisIngredient.name = [],
       ingredient_type = Member DISTILLATE, form = Member LIQUID,
       CannabisIngredient.coa_reference = None, terpene_profile = None,
       thc_mg_per_gram = Finite False 0 (- 2), cbd_mg_per_gram = Finite False 0 (- 2),
       is_decarboxylated = True, decarb_temp_f = None, decarb_time_minutes = None,
       storage_temp_min_f = 60, storage_temp_max_f = 70, shelf_life_days = 365,
       light_sensitive = True, CannabisIngredient.supplier_id = None, supplier_name = None, lot_number = None,
       received_date = None \<rparr>"

definition DosageInfo_default :: DosageInfo where
  "DosageInfo_default =
     \<lparr> thc_mg_per_serving = Finite False 0 (- 2), cbd_mg_per_serving = Finite False 0 (- 2),
       total_thc_mg = Finite False 0 (- 2), total_cbd_mg = Finite False 0 (- 2),
       DosageInfo.servings = 1, onset_time_minutes = 60, duration_hours = 6, recommended_for = [],
       high_dose_warning = False \<rparr>"

definition Recipe_default :: "UUID \<Rightarrow> datetime \<Rightarrow> datetime \<Rightarrow> Recipe" where
  "Recipe_default uid created updated =
     \<lparr> Recipe.id = uid, Recipe.name = [], description = None, Recipe.category = Member DESSERT,
       cannabis_ingredients = [], ingredients = [], steps = [], prep_time_minutes = 0,
       cook_time_minutes = 0, total_time_minutes = 0, Recipe.servings = 1,
       dosage_info = DosageInfo_default, dietary_labels = [], Recipe.allergens = [],
       nutrition = None, difficulty = ''medium'', chef_notes = None,
       terpene_pairing_notes = None, author = None, created_at = created,
       updated_at = updated \<rparr>"

text \<open>
  The generated \<open>__init__\<close> with keyword arguments: \<open>Recipe(category=c,
  cannabis_ingredients=xs, servings=n)\<close> and \<open>CannabisIngredient(ingredient_type=t,
  thc_mg_per_gram=thc, cbd_mg_per_gram=cbd)\<close>. No argument is checked, so the call has
  no failing branch.
\<close>

definition Recipe_init ::
  "UUID \<Rightarrow> datetime \<Rightarrow> datetime \<Rightarrow> RecipeCategory enum_field \<Rightarrow>
   (CannabisIngredient \<times> Decimal) list \<Rightarrow> int \<Rightarrow> py_exception + Recipe"
where
  "Recipe_init uid created updated c xs n =
     Inr ((Recipe_default uid created updated)
            \<lparr> Recipe.category := c, cannabis_ingredients := xs, Recipe.servings := n \<rparr>)"

definition CannabisIngredient_init ::
  "UUID \<Rightarrow> IngredientType enum_field \<Rightarrow> Decimal \<Rightarrow> Decimal \<Rightarrow> py_exception + CannabisIngredient"
where
  "CannabisIngredient_init uid t thc cbd =
     Inr ((CannabisIngredient_default uid)
            \<lparr> ingredient_type := t, thc_mg_per_gram := thc, cbd_mg_per_gram := cbd \<rparr>)"

text \<open>The decimal literals of the module: \<open>Decimal("0.00")\<close>, \<open>Decimal("0")\<close>, \<open>Decimal("10")\<close>.\<close>

definition Decimal_0_00 :: Decimal where "Decimal_0_00 = Finite False 0 (- 2)"
definition Decimal_0 :: Decimal where "Decimal_0 = Finite False 0 0"
definition Decimal_10 :: Decimal where "Decimal_10 = Finite False 10 0"


section \<open>The methods\<close>

subsection \<open>\<open>TerpeneProfile.suggest_pairings\<close>\<close>

text \<open>
  Five \<open>if\<close> statements in sequence, each extending the list \<open>pairings\<close>. Each test is a
  \<open>Decimal.__gt__\<close>, so each can raise; a raise ends the call.
\<close>

definition suggest_pairings :: "TerpeneProfile \<Rightarrow> py_exception + string list" where
  "suggest_pairings self =
     (let pairings = [] in
      case dec_gt (limonene self) (Finite False 5 (- 1)) of Inl e \<Rightarrow> Inl e | Inr b1 \<Rightarrow>
      let pairings =
        (if b1 then pairings @ [''citrus desserts'', ''seafood'', ''light salads'']
         else pairings) in
      case dec_gt (myrcene self) (Finite False 5 (- 1)) of Inl e \<Rightarrow> Inl e | Inr b2 \<Rightarrow>
      let pairings =
        (if b2 then pairings @ [''mangoes'', ''tropical fruits'', ''herbal dishes'']
         else pairings) in
      case dec_gt (caryophyllene self) (Finite False 3 (- 1)) of Inl e \<Rightarrow> Inl e | Inr b3 \<Rightarrow>
      let pairings =
        (if b3 then pairings @ [''black pepper'', ''spicy foods'', ''dark chocolate'']
         else pairings) in
      case dec_gt (pinene self) (Finite False 3 (- 1)) of Inl e \<Rightarrow> Inl e | Inr b4 \<Rightarrow>
      let pairings =
        (if b4 then pairings @ [''rosemary'', ''pine nuts'', ''Mediterranean'']
         else pairings) in
      case dec_gt (linalool self) (Finite False 2 (- 1)) of Inl e \<Rightarrow> Inl e | Inr b5 \<Rightarrow>
      let pairings =
        (if b5 then pairings @ [''lavender'', ''honey'', ''floral desserts'']
         else pairings) in
      Inr pairings)"

subsection \<open>\<open>CannabisIngredient.calculate_thc_dose\<close> and \<open>calculate_cbd_dose\<close>\<close>

definition calculate_thc_dose :: "CannabisIngredient \<Rightarrow> Decimal \<Rightarrow> py_exception + Decimal" where
  "calculate_thc_dose self grams = dec_mul (thc_mg_per_gram self) grams"

definition calculate_cbd_dose :: "CannabisIngredient \<Rightarrow> Decimal \<Rightarrow> py_exception + Decimal" where
  "calculate_cbd_dose self grams = dec_mul (cbd_mg_per_gram self) grams"

subsection \<open>\<open>DosageInfo.calculate_per_serving\<close>\<close>


subsection \<open>\<open>Recipe.calculate_total_dosage\<close>\<close>

text \<open>
  The \<open>for\<close> loop over \<open>cannabis_ingredients\<close>, with the two running totals as
  accumulators. Each iteration multiplies and adds twice; the first raise ends the call.
\<close>

fun sum_doses ::
  "(CannabisIngredient \<times> Decimal) list \<Rightarrow> Decimal \<Rightarrow> Decimal \<Rightarrow> py_exception + (Decimal \<times> Decimal)"
where
  "sum_doses [] total_thc total_cbd = Inr (total_thc, total_cbd)"
| "sum_doses ((ingredient, amount) # rest) total_thc total_cbd =
     (case calculate_thc_dose ingredient amount of Inl e \<Rightarrow> Inl e | Inr thc_dose \<Rightarrow>
      case dec_add total_thc thc_dose of Inl e \<Rightarrow> Inl e | Inr total_thc' \<Rightarrow>
      case calculate_cbd_dose ingredient amount of Inl e \<Rightarrow> Inl e | Inr cbd_dose \<Rightarrow>
      case dec_add total_cbd cbd_dose of Inl e \<Rightarrow> Inl e | Inr total_cbd' \<Rightarrow>
      sum_doses rest total_thc' total_cbd')"

text \<open>
  The arguments of the \<open>DosageInfo(...)\<close> call are evaluated in the order written:
  the two per-serving quotients, then the warning, which divides again. The fields not
  passed take the defaults of the dataclass.
\<close>

definition calculate_total_dosage :: "Recipe \<Rightarrow> py_exception + DosageInfo" where
  "calculate_total_dosage self =
     (case sum_doses (cannabis_ingredients self) Decimal_0_00 Decimal_0_00 of
        Inl e \<Rightarrow> Inl e
      | Inr (total_thc, total_cbd) \<Rightarrow>
      case (if Recipe.servings self \<noteq> 0
            then dec_div total_thc (dec_of_int (Recipe.servings self))
            else Inr Decimal_0) of Inl e \<Rightarrow> Inl e | Inr thc_per_serving \<Rightarrow>
      case (if Recipe.servings self \<noteq> 0
            then dec_div total_cbd (dec_of_int (Recipe.servings self))
            else Inr Decimal_0) of Inl e \<Rightarrow> Inl e | Inr cbd_per_serving \<Rightarrow>
      case (if Recipe.servings self \<noteq> 0
            then (case dec_div total_thc (dec_of_int (Recipe.servings self)) of
                    Inl e \<Rightarrow> Inl e
                  | Inr q \<Rightarrow> dec_gt q Decimal_10)
            else Inr False) of Inl e \<Rightarrow> Inl e | Inr warning \<Rightarrow>
      Inr \<lparr> thc_mg_per_serving = thc_per_serving,
            cbd_mg_per_serving = cbd_per_serving,
            total_thc_mg = total_thc,
            total_cbd_mg = total_cbd,
            DosageInfo.servings = Recipe.servings self,
            onset_time_minutes = 60,
            duration_hours = 6,
            recommended_for = [],
            high_dose_warning = warning \<rparr>)"


section \<open>Notions used in the statements\<close>


text \<open>
  The rational number a finite decimal denotes: \<open>(-1)\<^sup>s * c * 10\<^sup>e\<close>. The special values
  denote no number; \<open>0\<close> stands in for them and no statement below relies on it.
\<close>

fun dval :: "Decimal \<Rightarrow> rat" where
  "dval (Finite s c e) = of_int (signed s c) * 10 powi e"
| "dval x = 0"

text \<open>
  What the comparison \<open>x > t\<close> decides for a threshold \<open>t\<close>: the value of a finite \<open>x\<close> lies
  above \<open>t\<close>, or \<open>x\<close> is the positive infinity.
\<close>

fun exceeds :: "Decimal \<Rightarrow> rat \<Rightarrow> bool" where
  "exceeds (Finite s c e) t = (t < dval (Finite s c e))"
| "exceeds (Infinity s) t = (\<not> s)"
| "exceeds x t = False"

fun is_finite :: "Decimal \<Rightarrow> bool" where
  "is_finite (Finite s c e) = True"
| "is_finite x = False"

text \<open>The recipe of the two-ingredient scenario, for a given number of servings.\<close>

definition ingredient_A :: CannabisIngredient where
  "ingredient_A = (CannabisIngredient_default 1) \<lparr> thc_mg_per_gram := Finite False 10 0 \<rparr>"

definition ingredient_B :: CannabisIngredient where
  "ingredient_B = (CannabisIngredient_default 2) \<lparr> thc_mg_per_gram := Finite False 5 0 \<rparr>"

definition scenario_recipe :: "int \<Rightarrow> Recipe" where
  "scenario_recipe n =
     (Recipe_default 0 0 0)
       \<lparr> cannabis_ingredients := [(ingredient_A, Finite False 2 0), (ingredient_B, Finite False 1 0)],
         Recipe.servings := n \<rparr>"

text \<open>A terpene profile with given limonene and myrcene concentrations, all else default.\<close>

definition profile_with :: "Decimal \<Rightarrow> Decimal \<Rightarrow> TerpeneProfile" where
  "profile_with l m =
     (TerpeneProfile_default (CannabisCOAReference_default ''COA-1'' ''B-1'' ''strain''))
       \<lparr> limonene := l, myrcene := m \<rparr>"


text \<open>
  A profile that agrees with \<open>profile_with l m\<close> on the five tested concentrations and
  differs in every other field.
\<close>

definition profile_other :: "Decimal \<Rightarrow> Decimal \<Rightarrow> TerpeneProfile" where
  "profile_other l m =
     (profile_with l m)
       \<lparr> TerpeneProfile.coa_reference := CannabisCOAReference_default ''COA-2'' ''B-2'' ''other'',
         humulene := Finite False 9 (- 1), terpinolene := Finite False 8 (- 1),
         ocimene := Finite False 7 (- 1), primary_flavors := [''pine''],
         aroma_notes := [''earthy''], pairs_well_with := [''chocolate''],
         cuisine_types := [''Italian''] \<rparr>"


text \<open>
  A decimal that is a number and not below zero: finite with a clear sign, or a zero of
  either sign (\<open>Decimal("-0") == 0\<close>).
\<close>

fun nonneg :: "Decimal \<Rightarrow> bool" where
  "nonneg (Finite s c e) = (\<not> s \<or> c = 0)"
| "nonneg x = False"

text \<open>
  Concrete inputs: \<open>CannabisIngredient(thc_mg_per_gram=p)\<close>,
  \<open>Recipe(cannabis_ingredients=xs, servings=n)\<close>, and the \<open>DosageInfo\<close> that
  \<open>calculate_total_dosage\<close> builds from its six arguments.
\<close>

definition ingredient_with :: "Decimal \<Rightarrow> CannabisIngredient" where
  "ingredient_with p = (CannabisIngredient_default 3) \<lparr> thc_mg_per_gram := p \<rparr>"

definition recipe_of :: "(CannabisIngredient \<times> Decimal) list \<Rightarrow> int \<Rightarrow> Recipe" where
  "recipe_of xs n =
     (Recipe_default 0 0 0) \<lparr> cannabis_ingredients := xs, Recipe.servings := n \<rparr>"

definition dosage_of ::
  "Decimal \<Rightarrow> Decimal \<Rightarrow> Decimal \<Rightarrow> Decimal \<Rightarrow> int \<Rightarrow> bool \<Rightarrow> DosageInfo" where
  "dosage_of thc_ps cbd_ps thc cbd n w =
     \<lparr> thc_mg_per_serving = thc_ps, cbd_mg_per_serving = cbd_ps, total_thc_mg = thc,
       total_cbd_mg = cbd, DosageInfo.servings = n, onset_time_minutes = 60,
       duration_hours = 6, recommended_for = [], high_dose_warning = w \<rparr>"

text \<open>
  A finite decimal that the default context represents without rounding: at most 28
  digits, an exponent not below \<open>Etiny\<close>, an adjusted exponent not above \<open>Emax\<close>.
\<close>

fun representable :: "Decimal \<Rightarrow> bool" where
  "representable (Finite s c e) =
     (c < 10 ^ prec \<and> Etiny \<le> e \<and> int (ndigits c) + e - int prec \<le> Etop)"
| "representable x = False"

text \<open>
  A finite decimal whose magnitude is below \<open>10\<^sup>A\<close>, and a recipe all of whose potencies
  and quantities are such numbers, with enough room below \<open>Emax\<close> for the products and
  the running totals (\<open>A = 1000\<close> admits several hundred thousand ingredients).
\<close>

fun magnitude_below :: "int \<Rightarrow> Decimal \<Rightarrow> bool" where
  "magnitude_below A (Finite s c e) = (int (ndigits c) + e \<le> A)"
| "magnitude_below A x = False"

definition modest :: "int \<Rightarrow> Recipe \<Rightarrow> bool" where
  "modest A r \<longleftrightarrow>
     0 \<le> A \<and> 2 * A + 2 * int (length (cannabis_ingredients r)) + 1 \<le> Emax
     \<and> (\<forall>(i, a) \<in> set (cannabis_ingredients r).
          magnitude_below A (thc_mg_per_gram i) \<and> magnitude_below A (cbd_mg_per_gram i)
          \<and> magnitude_below A a)"


section \<open>Properties of the decimal arithmetic\<close>

lemma pow10_shift:
  assumes "e \<le> e1"
  shows "(10::rat) ^ nat (e1 - e) * 10 powi e = 10 powi e1"
proof -
  have "(10::rat) ^ nat (e1 - e) = 10 powi (e1 - e)"
    using assms by (simp add: power_int_def)
  then show ?thesis
    by (simp add: power_int_add [symmetric])
qed

lemma signed_scale:
  "signed s (c * 10 ^ k) = signed s c * 10 ^ k"
  by (simp add: signed_def)

lemma dval_scaled:
  assumes "e \<le> e1"
  shows "(of_int (signed s (c * 10 ^ nat (e1 - e))) :: rat) * 10 powi e = dval (Finite s c e1)"
proof -
  have "(of_int (signed s (c * 10 ^ nat (e1 - e))) :: rat) * 10 powi e
        = of_int (signed s c) * (10 ^ nat (e1 - e) * 10 powi e)"
    by (simp add: signed_scale)
  then show ?thesis
    using pow10_shift [OF assms] by simp
qed

lemma dec_cmp_finite:
  "dec_cmp (Finite s1 c1 e1) (Finite s2 c2 e2) =
     (if dval (Finite s1 c1 e1) < dval (Finite s2 c2 e2) then - 1
      else if dval (Finite s1 c1 e1) = dval (Finite s2 c2 e2) then 0 else 1)"
proof -
  define e where "e = min e1 e2"
  define v1 where "v1 = signed s1 (c1 * 10 ^ nat (e1 - e))"
  define v2 where "v2 = signed s2 (c2 * 10 ^ nat (e2 - e))"
  have p: "(0::rat) < 10 powi e" by (simp add: zero_less_power_int)
  have d1: "dval (Finite s1 c1 e1) = of_int v1 * 10 powi e"
    unfolding v1_def using dval_scaled [of e e1 s1 c1] by (simp add: e_def)
  have d2: "dval (Finite s2 c2 e2) = of_int v2 * 10 powi e"
    unfolding v2_def using dval_scaled [of e e2 s2 c2] by (simp add: e_def)
  have lt: "dval (Finite s1 c1 e1) < dval (Finite s2 c2 e2) \<longleftrightarrow> v1 < v2"
    unfolding d1 d2 using p by (simp add: mult_less_cancel_right not_le [symmetric] del: not_le)
  have eq: "dval (Finite s1 c1 e1) = dval (Finite s2 c2 e2) \<longleftrightarrow> v1 = v2"
    unfolding d1 d2 using p by simp
  have "dec_cmp (Finite s1 c1 e1) (Finite s2 c2 e2) =
          (if v1 < v2 then - 1 else if v1 = v2 then 0 else 1)"
    by (simp add: Let_def v1_def v2_def e_def)
  then show ?thesis
    unfolding lt eq .
qed

lemma dec_gt_finite:
  "dec_gt (Finite s1 c1 e1) (Finite s2 c2 e2) = Inr (dval (Finite s2 c2 e2) < dval (Finite s1 c1 e1))"
  unfolding dec_gt_def dec_cmp_finite by auto

lemma dec_gt_threshold:
  assumes "\<not> is_nan x"
  shows "dec_gt x (Finite s c e) = Inr (exceeds x (dval (Finite s c e)))"
proof (cases x)
  case (Finite s1 c1 e1)
  then show ?thesis by (simp add: dec_gt_finite)
next
  case (Infinity s1)
  then show ?thesis by (simp add: dec_gt_def)
next
  case (NaN s1 p)
  with assms show ?thesis by simp
next
  case (sNaN s1 p)
  with assms show ?thesis by simp
qed


section \<open>The number of digits\<close>

lemma ndigits_pos: "0 < ndigits n"
  by (subst ndigits.simps) simp

lemma ndigits_le_iff: "0 < d \<Longrightarrow> ndigits n \<le> d \<longleftrightarrow> n < 10 ^ d"
proof (induction n arbitrary: d rule: ndigits.induct)
  case (1 n)
  show ?case
  proof (cases "n < 10")
    case True
    have "(10::nat) ^ 1 \<le> 10 ^ d"
      using "1.prems" by (intro power_increasing) auto
    with True have "n < 10 ^ d" by simp
    moreover from True have "ndigits n = 1"
      by (subst ndigits.simps) simp
    ultimately show ?thesis using "1.prems" by simp
  next
    case False
    then have nd: "ndigits n = Suc (ndigits (n div 10))"
      by (subst ndigits.simps) simp
    show ?thesis
    proof (cases "d = 1")
      case True
      with False nd ndigits_pos [of "n div 10"] show ?thesis by simp
    next
      case d: False
      with "1.prems" have d1: "0 < d - 1" by simp
      from "1.IH" [OF False d1] have "ndigits (n div 10) \<le> d - 1 \<longleftrightarrow> n div 10 < 10 ^ (d - 1)" .
      moreover have "n div 10 < 10 ^ (d - 1) \<longleftrightarrow> n < 10 ^ (d - 1) * 10"
        by (simp add: div_less_iff_less_mult)
      moreover have "(10::nat) ^ (d - 1) * 10 = 10 ^ d"
        using "1.prems" by (cases d) simp_all
      ultimately show ?thesis
        using nd "1.prems" by auto
    qed
  qed
qed

lemma ndigits_upper: "n < 10 ^ ndigits n"
  using ndigits_le_iff [OF ndigits_pos, of n n] by simp

lemma ndigits_lower: "0 < n \<Longrightarrow> 10 ^ (ndigits n - 1) \<le> n"
proof (rule ccontr)
  assume n: "0 < n" and "\<not> 10 ^ (ndigits n - 1) \<le> n"
  then have lt: "n < 10 ^ (ndigits n - 1)" by simp
  show False
  proof (cases "ndigits n = 1")
    case True
    with lt n show False by simp
  next
    case False
    with ndigits_pos [of n] have "0 < ndigits n - 1" by simp
    from ndigits_le_iff [OF this, of n] lt have "ndigits n \<le> ndigits n - 1" by simp
    with ndigits_pos [of n] show False by simp
  qed
qed

lemma ndigits_eqI:
  assumes "0 < d" and "10 ^ (d - 1) \<le> n" and "n < 10 ^ d"
  shows "ndigits n = d"
proof (rule antisym)
  show "ndigits n \<le> d"
    using ndigits_le_iff [OF assms(1)] assms(3) by simp
  show "d \<le> ndigits n"
  proof (rule ccontr)
    assume "\<not> d \<le> ndigits n"
    then have "ndigits n \<le> d - 1" "0 < d - 1"
      using ndigits_pos [of n] by simp_all
    with ndigits_le_iff [of "d - 1" n] have "n < 10 ^ (d - 1)" by simp
    with assms(2) show False by simp
  qed
qed

lemma ndigits_mult_pow10:
  assumes "0 < c"
  shows "ndigits (c * 10 ^ k) = ndigits c + k"
proof (rule ndigits_eqI)
  show "0 < ndigits c + k" using ndigits_pos [of c] by simp
  have "10 ^ (ndigits c - 1) * 10 ^ k \<le> c * 10 ^ k"
    using ndigits_lower [OF assms] by simp
  moreover have "ndigits c + k - 1 = (ndigits c - 1) + k"
    using ndigits_pos [of c] by simp
  ultimately show "10 ^ (ndigits c + k - 1) \<le> c * 10 ^ k"
    by (simp add: power_add)
  show "c * 10 ^ k < 10 ^ (ndigits c + k)"
    using ndigits_upper [of c] by (simp add: power_add)
qed

lemma ndigits_lt_pow: "c < 10 ^ d \<Longrightarrow> 0 < d \<Longrightarrow> ndigits c \<le> d"
  by (simp add: ndigits_le_iff)

section \<open>Rounding to the context\<close>

lemma Etiny_le_Etop: "Etiny \<le> Etop" and Etop_le_Emax: "Etop \<le> Emax"
  and Emax_eq: "Emax = Etop + int prec - 1"
  by (simp_all add: Etiny_def Etop_def Emin_def Emax_def prec_def)

lemma dec_fix_id:
  assumes "representable (Finite s c e)"
  shows "dec_fix s c e = Inr (Finite s c e)"
proof (cases "c = 0")
  case True
  have "ndigits 0 = 1" by (subst ndigits.simps) simp
  with assms True have "Etiny \<le> e" "e \<le> Emax"
    by (simp_all add: Emax_eq)
  with True show ?thesis
    by (simp add: dec_fix_def)
next
  case False
  from assms have c: "c < 10 ^ prec" and e: "Etiny \<le> e"
    and top: "int (ndigits c) + e - int prec \<le> Etop"
    by simp_all
  have "0 < prec" by (simp add: prec_def)
  with c have "ndigits c \<le> prec" by (simp add: ndigits_le_iff)
  then have "int (ndigits c) + e - int prec \<le> e" by simp
  with e have "\<not> e < max (int (ndigits c) + e - int prec) Etiny" by simp
  with False top show ?thesis
    by (simp add: dec_fix_def Let_def)
qed

lemma round_half_even_cases:
  "round_half_even c k = c div 10 ^ k \<or> round_half_even c k = c div 10 ^ k + 1"
  by (simp add: round_half_even_def Let_def)

lemma ndigits_pow10: "ndigits (10 ^ k) = Suc k"
proof -
  have "ndigits 1 = 1" by (subst ndigits.simps) simp
  with ndigits_mult_pow10 [of 1 k] show ?thesis by simp
qed

lemma dec_fix_representable:
  assumes "dec_fix s c e = Inr r"
  shows "representable r"
proof (cases "c = 0")
  case True
  have "ndigits 0 = 1" by (subst ndigits.simps) simp
  moreover have "min (max e Etiny) Emax \<le> Emax" "Etiny \<le> min (max e Etiny) Emax"
    using Etiny_le_Etop Etop_le_Emax by simp_all
  ultimately show ?thesis
    using assms True by (auto simp: dec_fix_def Emax_eq prec_def)
next
  case False
  define exp_min0 where "exp_min0 = int (ndigits c) + e - int prec"
  define exp_min where "exp_min = max exp_min0 Etiny"
  define k where "k = nat (exp_min - e)"
  define q where "q = round_half_even c k"
  have fx: "dec_fix s c e =
      (if Etop < exp_min0 then Inl Overflow
       else if e < exp_min then
         (if Etop < (if prec < ndigits q then exp_min + 1 else exp_min) then Inl Overflow
          else Inr (Finite s (if prec < ndigits q then q div 10 else q)
                 (if prec < ndigits q then exp_min + 1 else exp_min)))
       else Inr (Finite s c e))"
    using False by (simp add: dec_fix_def Let_def exp_min0_def exp_min_def k_def q_def)
  from assms fx have no: "\<not> Etop < exp_min0"
    by (auto split: if_splits)
  show ?thesis
  proof (cases "e < exp_min")
    case unchanged: False
    with assms fx no have r: "r = Finite s c e" by simp
    from unchanged have "exp_min0 \<le> e" "Etiny \<le> e" by (simp_all add: exp_min_def)
    then have "ndigits c \<le> prec" by (simp add: exp_min0_def)
    then have "c < 10 ^ prec" by (simp add: ndigits_le_iff prec_def)
    with \<open>Etiny \<le> e\<close> no show ?thesis
      unfolding r by (simp add: exp_min0_def)
  next
    case rounded: True
    with assms fx no have top: "\<not> Etop < (if prec < ndigits q then exp_min + 1 else exp_min)"
      and r: "r = Finite s (if prec < ndigits q then q div 10 else q)
                 (if prec < ndigits q then exp_min + 1 else exp_min)"
      by (auto split: if_splits)
    have tiny: "Etiny \<le> exp_min" by (simp add: exp_min_def)
    show ?thesis
    proof (cases "prec < ndigits q")
      case carry: True
      have ek: "exp_min = e + int k" using rounded by (simp add: k_def)
      have "int (ndigits c) \<le> int k + int prec"
        using ek by (simp add: exp_min_def exp_min0_def)
      then have "ndigits c \<le> k + prec" by linarith
      then have "(10::nat) ^ ndigits c \<le> 10 ^ (k + prec)"
        by (intro power_increasing) simp_all
      with ndigits_upper [of c] have "c < 10 ^ prec * 10 ^ k"
        by (simp add: power_add mult.commute)
      then have "c div 10 ^ k < 10 ^ prec"
        by (simp add: div_less_iff_less_mult)
      with round_half_even_cases [of c k] have "q \<le> 10 ^ prec"
        by (auto simp: q_def)
      moreover from carry have "\<not> q < 10 ^ prec"
        using ndigits_le_iff [of prec q] by (simp add: prec_def)
      ultimately have q: "q = 10 ^ prec" by simp
      have q10: "q div 10 = 10 ^ (prec - 1)"
        unfolding q by (simp add: prec_def)
      have c1: "q div 10 < 10 ^ prec"
        unfolding q by (simp add: prec_def)
      have "ndigits (q div 10) = Suc (prec - 1)"
        unfolding q10 by (rule ndigits_pow10)
      then have c2: "ndigits (q div 10) = prec"
        by (simp add: prec_def)
      show ?thesis
        using carry top tiny c1 c2 unfolding r by simp
    next
      case nocarry: False
      then have "q < 10 ^ prec"
        using ndigits_le_iff [of prec q] by (simp add: prec_def)
      with nocarry top tiny show ?thesis
        unfolding r by simp
    qed
  qed
qed

lemma round_half_even_exact:
  assumes "0 < k" and "c mod 10 ^ k = 0"
  shows "round_half_even c k = c div 10 ^ k"
  using assms by (simp add: round_half_even_def Let_def)

lemma dec_fix_exact:
  assumes c: "c = c' * 10 ^ k" and pos: "0 < c'" and small: "c' < 10 ^ prec"
    and tiny: "Etiny \<le> e + int k"
    and top: "int (ndigits c') + (e + int k) - int prec \<le> Etop"
  shows "\<exists>c'' e''. dec_fix s c e = Inr (Finite s c'' e'')
           \<and> dval (Finite s c'' e'') = dval (Finite s c e)"
proof -
  define exp_min0 where "exp_min0 = int (ndigits c) + e - int prec"
  define exp_min where "exp_min = max exp_min0 Etiny"
  define k0 where "k0 = nat (exp_min - e)"
  define q where "q = round_half_even c k0"
  from pos c have c0: "c \<noteq> 0" by simp
  have nd: "ndigits c = ndigits c' + k"
    unfolding c by (rule ndigits_mult_pow10 [OF pos])
  have ndc': "ndigits c' \<le> prec"
    using small by (simp add: ndigits_le_iff prec_def)
  have no: "\<not> Etop < exp_min0"
    using top by (simp add: exp_min0_def nd)
  have fx: "dec_fix s c e =
      (if e < exp_min then
         (if Etop < (if prec < ndigits q then exp_min + 1 else exp_min) then Inl Overflow
          else Inr (Finite s (if prec < ndigits q then q div 10 else q)
                 (if prec < ndigits q then exp_min + 1 else exp_min)))
       else Inr (Finite s c e))"
    using c0 no by (simp add: dec_fix_def Let_def exp_min0_def exp_min_def k0_def q_def)
  show ?thesis
  proof (cases "e < exp_min")
    case False
    with fx show ?thesis by simp
  next
    case True
    then have k0: "0 < k0" and ek: "exp_min = e + int k0"
      by (simp_all add: k0_def)
    have "exp_min0 \<le> e + int k"
      using ndc' by (simp add: exp_min0_def nd)
    with tiny have "exp_min \<le> e + int k" by (simp add: exp_min_def)
    with ek have kk: "k0 \<le> k" by simp
    then have split: "c = (c' * 10 ^ (k - k0)) * 10 ^ k0"
      unfolding c by (simp add: power_add [symmetric])
    then have "c mod 10 ^ k0 = 0" by simp
    from round_half_even_exact [OF k0 this] split have q: "q = c' * 10 ^ (k - k0)"
      by (simp add: q_def)
    have "ndigits q = ndigits c' + (k - k0)"
      unfolding q by (rule ndigits_mult_pow10 [OF pos])
    moreover have "exp_min0 \<le> exp_min" by (simp add: exp_min_def)
    ultimately have nocarry: "\<not> prec < ndigits q"
      using ek kk by (simp add: exp_min0_def nd)
    have "exp_min \<le> Etop"
      using no Etiny_le_Etop by (simp add: exp_min_def)
    with fx True nocarry have r: "dec_fix s c e = Inr (Finite s q exp_min)"
      by simp
    have "e \<le> exp_min" using True by simp
    from dval_scaled [OF this, of s q] have "dval (Finite s q exp_min) = dval (Finite s c e)"
      using split by (simp add: q k0_def)
    with r show ?thesis by blast
  qed
qed

lemma half_unit_up:
  fixes h r p :: int
  assumes "h \<le> r" and "r < p" and "2 * h = p"
  shows "\<bar>p - r\<bar> * 2 \<le> p"
  using assms by arith

lemma half_unit_down:
  fixes h r p :: int
  assumes "r \<le> h" and "0 \<le> r" and "2 * h = p"
  shows "\<bar>- r\<bar> * 2 \<le> p"
  using assms by arith

lemma round_half_even_error:
  assumes "0 < k"
  shows "\<bar>int (round_half_even c k) * 10 ^ k - int c\<bar> * 2 \<le> 10 ^ k"
proof -
  define q0 where "q0 = c div 10 ^ k"
  define r where "r = c mod 10 ^ k"
  define half :: nat where "half = 5 * 10 ^ (k - 1)"
  define p :: int where "p = 10 ^ k"
  have c: "c = q0 * 10 ^ k + r"
    unfolding q0_def r_def by (rule div_mult_mod_eq [symmetric])
  have "r < 10 ^ k"
    by (simp add: r_def)
  then have "int r < int (10 ^ k)"
    by (rule iffD2 [OF of_nat_less_iff])
  then have ir: "int r < p"
    by (simp add: p_def)
  have "2 * half = 10 ^ k"
    using assms by (cases k) (simp_all add: half_def)
  then have "int (2 * half) = int (10 ^ k)"
    by (rule arg_cong)
  then have ih: "2 * int half = p"
    by (simp add: p_def)
  define up where "up \<longleftrightarrow> half < r \<or> (r = half \<and> odd q0)"
  have rhe: "round_half_even c k = (if up then q0 + 1 else q0)"
    by (simp add: round_half_even_def Let_def q0_def r_def half_def up_def)
  have "int c = int (q0 * 10 ^ k + r)"
    using c by (rule arg_cong)
  then have ic: "int c = int q0 * p + int r"
    by (simp add: p_def)
  have goal: "\<bar>int (round_half_even c k) * p - int c\<bar> * 2 \<le> p"
  proof (cases up)
    case True
    then have hr: "int half \<le> int r" by (auto simp: up_def)
    from True have e: "int (round_half_even c k) * p - int c = p - int r"
      by (simp add: rhe ic algebra_simps)
    show ?thesis
      unfolding e using hr ir ih by (rule half_unit_up)
  next
    case False
    then have rh: "int r \<le> int half" by (auto simp: up_def)
    from False have e: "int (round_half_even c k) * p - int c = - int r"
      by (simp add: rhe ic)
    show ?thesis
      unfolding e using rh _ ih by (rule half_unit_down) simp
  qed
  then show ?thesis
    by (simp add: p_def)
qed

lemma round_carry:
  assumes "ndigits c \<le> k + prec" and "prec < ndigits (round_half_even c k)"
  shows "round_half_even c k = 10 ^ prec"
proof -
  from assms(1) have "(10::nat) ^ ndigits c \<le> 10 ^ (k + prec)"
    by (intro power_increasing) simp_all
  with ndigits_upper [of c] have "c < 10 ^ prec * 10 ^ k"
    by (simp add: power_add mult.commute)
  then have "c div 10 ^ k < 10 ^ prec"
    by (simp add: div_less_iff_less_mult)
  with round_half_even_cases [of c k] have "round_half_even c k \<le> 10 ^ prec"
    by auto
  moreover from assms(2) have "\<not> round_half_even c k < 10 ^ prec"
    using ndigits_le_iff [of prec "round_half_even c k"] by (simp add: prec_def)
  ultimately show ?thesis by simp
qed

lemma pow10_mono: "a \<le> b \<Longrightarrow> (10::rat) powi a \<le> 10 powi b"
  by (rule power_int_increasing) simp_all

lemma abs_signed_diff: "\<bar>signed s a - signed s b\<bar> = \<bar>int a - int b\<bar>"
  by (cases s) (simp_all add: signed_def abs_minus_commute)

lemma dec_fix_error:
  assumes "dec_fix s c e = Inr r"
  shows "\<exists>c' e'. r = Finite s c' e' \<and> \<bar>dval r - dval (Finite s c e)\<bar> * 2 \<le> 10 powi e'"
proof (cases "c = 0")
  case True
  with assms have "r = Finite s 0 (min (max e Etiny) Emax)"
    by (simp add: dec_fix_def)
  moreover have "(0::rat) \<le> 10 powi (min (max e Etiny) Emax)"
    by simp
  ultimately show ?thesis
    using True by (simp add: signed_def)
next
  case False
  define exp_min0 where "exp_min0 = int (ndigits c) + e - int prec"
  define exp_min where "exp_min = max exp_min0 Etiny"
  define k where "k = nat (exp_min - e)"
  define q where "q = round_half_even c k"
  have fx: "dec_fix s c e =
      (if Etop < exp_min0 then Inl Overflow
       else if e < exp_min then
         (if Etop < (if prec < ndigits q then exp_min + 1 else exp_min) then Inl Overflow
          else Inr (Finite s (if prec < ndigits q then q div 10 else q)
                 (if prec < ndigits q then exp_min + 1 else exp_min)))
       else Inr (Finite s c e))"
    using False by (simp add: dec_fix_def Let_def exp_min0_def exp_min_def k_def q_def)
  show ?thesis
  proof (cases "e < exp_min")
    case unchanged: False
    with assms fx have "r = Finite s c e"
      by (auto split: if_splits)
    moreover have "(0::rat) \<le> 10 powi e"
      by simp
    ultimately show ?thesis by simp
  next
    case rounded: True
    then have k: "0 < k" and ek: "exp_min = e + int k" and le: "e \<le> exp_min"
      by (simp_all add: k_def)
    have kn: "nat (exp_min - e) = k" by (simp add: k_def)
    have vq: "dval (Finite s q exp_min) = of_int (signed s (q * 10 ^ k)) * 10 powi e"
      using dval_scaled [OF le, of s q] by (simp add: kn)
    have "dval (Finite s q exp_min) - dval (Finite s c e)
            = of_int (signed s (q * 10 ^ k) - signed s c) * 10 powi e"
      unfolding vq by (simp add: algebra_simps)
    then have "\<bar>dval (Finite s q exp_min) - dval (Finite s c e)\<bar>
            = of_int \<bar>signed s (q * 10 ^ k) - signed s c\<bar> * 10 powi e"
      by (simp add: abs_mult)
    also have "\<bar>signed s (q * 10 ^ k) - signed s c\<bar> = \<bar>int q * 10 ^ k - int c\<bar>"
      by (simp add: abs_signed_diff)
    finally have d: "\<bar>dval (Finite s q exp_min) - dval (Finite s c e)\<bar> * 2
            = of_int (\<bar>int q * 10 ^ k - int c\<bar> * 2) * 10 powi e"
      by simp
    have "(of_int (\<bar>int q * 10 ^ k - int c\<bar> * 2) :: rat) \<le> of_int (10 ^ k)"
      using round_half_even_error [OF k, of c] unfolding q_def by (rule iffD2 [OF of_int_le_iff])
    then have "(of_int (\<bar>int q * 10 ^ k - int c\<bar> * 2) :: rat) * 10 powi e \<le> of_int (10 ^ k) * 10 powi e"
      by (rule mult_right_mono) simp
    also have "(of_int (10 ^ k) :: rat) * 10 powi e = 10 powi exp_min"
      using pow10_shift [OF le] by (simp add: kn)
    finally have bound: "\<bar>dval (Finite s q exp_min) - dval (Finite s c e)\<bar> * 2 \<le> 10 powi exp_min"
      unfolding d .
    show ?thesis
    proof (cases "prec < ndigits q")
      case carry: True
      with assms fx rounded have r: "r = Finite s (q div 10) (exp_min + 1)"
        by (auto split: if_splits)
      have "int (ndigits c) \<le> int k + int prec"
        using ek by (simp add: exp_min_def exp_min0_def)
      then have "ndigits c \<le> k + prec" by linarith
      from round_carry [OF this] carry have "q = 10 ^ prec"
        by (simp add: q_def)
      then have q10: "q = q div 10 * 10 ^ 1"
        by (simp add: prec_def)
      have "dval (Finite s (q div 10) (exp_min + 1)) = dval (Finite s q exp_min)"
        using dval_scaled [of exp_min "exp_min + 1" s "q div 10"] q10 by simp
      with bound have "\<bar>dval r - dval (Finite s c e)\<bar> * 2 \<le> 10 powi exp_min"
        by (simp only: r)
      also have "(10::rat) powi exp_min \<le> 10 powi (exp_min + 1)"
        by (rule pow10_mono) simp
      finally show ?thesis
        using r by blast
    next
      case nocarry: False
      with assms fx rounded have r: "r = Finite s q exp_min"
        by (auto split: if_splits)
      with bound show ?thesis by blast
    qed
  qed
qed

lemma abs_dval: "\<bar>dval (Finite s c e)\<bar> = of_nat c * 10 powi e"
  by (cases s) (simp_all add: signed_def abs_mult)

lemma dec_fix_representable_value:
  assumes rep: "representable (Finite st ct et)"
    and val: "dval (Finite s c e) = dval (Finite st ct et)"
  shows "\<exists>c'' e''. dec_fix s c e = Inr (Finite s c'' e'')
           \<and> dval (Finite s c'' e'') = dval (Finite st ct et)"
proof (cases "c = 0")
  case True
  then have fx: "dec_fix s c e = Inr (Finite s 0 (min (max e Etiny) Emax))"
    by (simp add: dec_fix_def)
  from True have z: "dval (Finite s c e) = 0"
    by (simp add: signed_def)
  have "dval (Finite s 0 (min (max e Etiny) Emax)) = 0"
    by (simp add: signed_def)
  also have "0 = dval (Finite st ct et)"
    unfolding val [symmetric] by (rule z [symmetric])
  finally show ?thesis
    using fx by blast
next
  case False
  from rep have small: "ct < 10 ^ prec" and tiny: "Etiny \<le> et"
    and top: "int (ndigits ct) + et - int prec \<le> Etop"
    by simp_all
  from val have "\<bar>dval (Finite s c e)\<bar> = \<bar>dval (Finite st ct et)\<bar>"
    by simp
  then have av: "(of_nat c :: rat) * 10 powi e = of_nat ct * 10 powi et"
    by (simp only: abs_dval)
  have pe: "(0::rat) < 10 powi e" and pet: "(0::rat) < 10 powi et"
    by (simp_all add: zero_less_power_int)
  from False av pe have ct0: "0 < ct"
    by (cases "ct = 0") auto
  show ?thesis
  proof (cases "e \<le> et")
    case True
    define k where "k = nat (et - e)"
    from pow10_shift [OF True] have "(10::rat) powi et = 10 ^ k * 10 powi e"
      by (simp add: k_def)
    with av have "(of_nat c :: rat) * 10 powi e = of_nat (ct * 10 ^ k) * 10 powi e"
      by simp
    with pe have "(of_nat c :: rat) = of_nat (ct * 10 ^ k)"
      by simp
    then have c: "c = ct * 10 ^ k"
      by (simp only: of_nat_eq_iff)
    have ek: "e + int k = et"
      using True by (simp add: k_def)
    from tiny top have "Etiny \<le> e + int k"
      and "int (ndigits ct) + (e + int k) - int prec \<le> Etop"
      by (simp_all add: ek)
    from dec_fix_exact [OF c ct0 small this, of s]
    show ?thesis
      unfolding val .
  next
    case False
    then have le: "et \<le> e" by simp
    define j where "j = nat (e - et)"
    from pow10_shift [OF le] have "(10::rat) powi e = 10 ^ j * 10 powi et"
      by (simp add: j_def)
    with av have "(of_nat (c * 10 ^ j) :: rat) * 10 powi et = of_nat ct * 10 powi et"
      by simp
    with pet have "(of_nat (c * 10 ^ j) :: rat) = of_nat ct"
      by simp
    then have ct: "ct = c * 10 ^ j"
      by (simp only: of_nat_eq_iff)
    from \<open>c \<noteq> 0\<close> have c0: "0 < c" by simp
    have "c \<le> c * 10 ^ j" by simp
    also have "c * 10 ^ j < 10 ^ prec"
      using small unfolding ct .
    finally have cs: "c < 10 ^ prec" .
    have "ndigits ct = ndigits c + j"
      unfolding ct by (rule ndigits_mult_pow10 [OF c0])
    moreover have "e = et + int j"
      using le by (simp add: j_def)
    ultimately have top': "int (ndigits c) + (e + int 0) - int prec \<le> Etop"
      using top by simp
    have tiny': "Etiny \<le> e + int 0"
      using tiny le by simp
    have "c = c * 10 ^ 0" by simp
    from dec_fix_exact [OF this c0 cs tiny' top', of s]
    show ?thesis
      unfolding val .
  qed
qed

lemma dval_mul:
  "dval (Finite (s1 \<noteq> s2) (c1 * c2) (e1 + e2)) = dval (Finite s1 c1 e1) * dval (Finite s2 c2 e2)"
proof -
  have "signed (s1 \<noteq> s2) (c1 * c2) = signed s1 c1 * signed s2 c2"
    by (cases s1; cases s2) (simp_all add: signed_def)
  then show ?thesis
    by (simp add: power_int_add)
qed

lemma dval_of_int: "dval (dec_of_int n) = of_int n"
  by (simp add: dec_of_int_def signed_def)

lemma strip_zeros_shift:
  "strip_zeros (c * 10 ^ k) (e - int k) e = (c, e)"
proof (induction k)
  case 0
  show ?case by (subst strip_zeros.simps) simp
next
  case (Suc k)
  have "strip_zeros (c * 10 ^ Suc k) (e - int (Suc k)) e
          = strip_zeros (c * 10 ^ Suc k div 10) (e - int (Suc k) + 1) e"
    by (subst strip_zeros.simps) simp
  also have "c * 10 ^ Suc k div 10 = c * 10 ^ k" by simp
  also have "e - int (Suc k) + 1 = e - int k" by simp
  finally show ?case using Suc.IH by simp
qed

lemma dec_div_one:
  assumes "representable (Finite s c e)"
  shows "dec_div (Finite s c e) (dec_of_int 1) = Inr (Finite s c e)"
proof (cases "c = 0")
  case True
  with dec_fix_id [OF assms] show ?thesis
    by (simp add: dec_of_int_def div_finite_def)
next
  case False
  from assms have "c < 10 ^ prec" by simp
  then have nd: "ndigits c \<le> prec"
    by (simp add: ndigits_le_iff prec_def)
  have one: "ndigits 1 = 1" "ndigits (Suc 0) = Suc 0"
    by (subst ndigits.simps, simp)+
  define k where "k = Suc (Suc prec) - ndigits c"
  have shift: "int (ndigits 1) - int (ndigits c) + int prec + 1 = int k"
    using nd by (simp add: one k_def)
  have "div_finite s c e 1 0 = dec_fix s c e"
    unfolding div_finite_def Let_def shift using False
    by (simp add: strip_zeros_shift)
  with dec_fix_id [OF assms] show ?thesis
    by (simp add: dec_of_int_def)
qed

lemma dec_add_representable:
  assumes "dec_add x y = Inr r" and "is_finite r"
  shows "representable r"
proof (cases x; cases y)
  fix s1 c1 e1 s2 c2 e2
  assume "x = Finite s1 c1 e1" "y = Finite s2 c2 e2"
  with assms(1) show ?thesis
    by (auto simp: Let_def split: if_splits intro: dec_fix_representable)
qed (use assms in \<open>auto simp: fix_nan_def split: if_splits\<close>)

lemma dec_eq_finite:
  "dec_eq (Finite s1 c1 e1) (Finite s2 c2 e2)
     = Inr (dval (Finite s1 c1 e1) = dval (Finite s2 c2 e2))"
  unfolding dec_eq_def dec_cmp_finite by auto

section \<open>Which exceptions the arithmetic can raise\<close>

lemma dec_fix_result:
  "dec_fix s c e = Inl Overflow \<or> (\<exists>c' e'. dec_fix s c e = Inr (Finite s c' e') \<and> (c = 0 \<longrightarrow> c' = 0))"
  by (simp add: dec_fix_def Let_def)

lemma dec_fix_Inl: "dec_fix s c e = Inl err \<Longrightarrow> err = Overflow"
  using dec_fix_result [of s c e] by auto

lemma check_nans_not_dbz: "check_nans x y = Some r \<Longrightarrow> r \<noteq> Inl DivisionByZero"
  by (cases x; cases y) (auto simp: fix_nan_def)

lemma dec_mul_not_dbz: "dec_mul x y \<noteq> Inl DivisionByZero"
proof (cases x; cases y)
  fix s1 c1 e1 s2 c2 e2
  assume "x = Finite s1 c1 e1" "y = Finite s2 c2 e2"
  then show ?thesis using dec_fix_Inl [of "s1 \<noteq> s2" "c1 * c2" "e1 + e2" DivisionByZero] by auto
qed (auto simp: fix_nan_def)

lemma dec_add_not_dbz: "dec_add x y \<noteq> Inl DivisionByZero"
proof (cases x; cases y)
  fix s1 c1 e1 s2 c2 e2
  assume "x = Finite s1 c1 e1" "y = Finite s2 c2 e2"
  then show ?thesis
    by (auto simp: Let_def dest: dec_fix_Inl)
qed (auto simp: fix_nan_def)

lemma div_finite_result:
  "div_finite s c1 e1 c2 e2 = Inl Overflow
   \<or> (\<exists>c' e'. div_finite s c1 e1 c2 e2 = Inr (Finite s c' e'))"
proof -
  have *: "\<And>c e. dec_fix s c e = Inl Overflow \<or> (\<exists>c' e'. dec_fix s c e = Inr (Finite s c' e'))"
    using dec_fix_result by blast
  show ?thesis
    unfolding div_finite_def Let_def
    by (auto split: prod.splits simp: *)
qed

lemma dec_div_int_result:
  assumes "n \<noteq> 0"
  shows "dec_div (Finite s c e) (dec_of_int n) = Inl Overflow
         \<or> (\<exists>c' e'. dec_div (Finite s c e) (dec_of_int n) = Inr (Finite (s \<noteq> (n < 0)) c' e'))"
  using assms div_finite_result [of "s \<noteq> (n < 0)" c e "nat \<bar>n\<bar>" 0]
  by (simp add: dec_of_int_def)

lemma dec_div_int_not_dbz:
  assumes "n \<noteq> 0"
  shows "dec_div x (dec_of_int n) \<noteq> Inl DivisionByZero"
proof (cases x)
  case (Finite s c e)
  then show ?thesis using dec_div_int_result [OF assms, of s c e] by auto
qed (auto simp: dec_of_int_def fix_nan_def)

lemma dec_gt_not_dbz: "dec_gt x y \<noteq> Inl DivisionByZero"
  by (simp add: dec_gt_def)

lemma sum_doses_not_dbz: "sum_doses xs t c \<noteq> Inl DivisionByZero"
proof (induction xs arbitrary: t c)
  case Nil
  show ?case by simp
next
  case (Cons a xs)
  obtain i g where a: "a = (i, g)" by (cases a)
  show ?case
    unfolding a
    by (auto simp: calculate_thc_dose_def calculate_cbd_dose_def dec_mul_not_dbz dec_add_not_dbz Cons.IH
        split: sum.splits)
qed

lemma calculate_total_dosage_not_dbz: "calculate_total_dosage r \<noteq> Inl DivisionByZero"
proof (cases "Recipe.servings r = 0")
  case True
  then show ?thesis
    by (auto simp: calculate_total_dosage_def sum_doses_not_dbz split: sum.splits prod.splits)
next
  case False
  then show ?thesis
    by (auto simp: calculate_total_dosage_def sum_doses_not_dbz dec_div_int_not_dbz dec_gt_not_dbz
        split: sum.splits prod.splits)
qed

section \<open>What \<open>calculate_total_dosage\<close> returns\<close>

lemma dec_fix_InrD:
  "dec_fix s c e = Inr r \<Longrightarrow> \<exists>c' e'. r = Finite s c' e' \<and> (c = 0 \<longrightarrow> c' = 0)"
  using dec_fix_result [of s c e] by auto

lemma calculate_total_dosage_Inr:
  assumes "calculate_total_dosage r = Inr d"
  shows "sum_doses (cannabis_ingredients r) Decimal_0_00 Decimal_0_00
           = Inr (total_thc_mg d, total_cbd_mg d)"
    and "DosageInfo.servings d = Recipe.servings r"
    and "Recipe.servings r = 0 \<Longrightarrow> thc_mg_per_serving d = Decimal_0"
    and "Recipe.servings r = 0 \<Longrightarrow> cbd_mg_per_serving d = Decimal_0"
    and "Recipe.servings r = 0 \<Longrightarrow> \<not> high_dose_warning d"
    and "Recipe.servings r \<noteq> 0 \<Longrightarrow>
           dec_div (total_thc_mg d) (dec_of_int (Recipe.servings r)) = Inr (thc_mg_per_serving d)"
    and "Recipe.servings r \<noteq> 0 \<Longrightarrow>
           dec_div (total_cbd_mg d) (dec_of_int (Recipe.servings r)) = Inr (cbd_mg_per_serving d)"
    and "Recipe.servings r \<noteq> 0 \<Longrightarrow>
           dec_gt (thc_mg_per_serving d) Decimal_10 = Inr (high_dose_warning d)"
proof -
  show "sum_doses (cannabis_ingredients r) Decimal_0_00 Decimal_0_00
           = Inr (total_thc_mg d, total_cbd_mg d)"
    and "DosageInfo.servings d = Recipe.servings r"
    using assms
    by (auto simp: calculate_total_dosage_def split: sum.splits prod.splits if_splits)
  show "thc_mg_per_serving d = Decimal_0" "cbd_mg_per_serving d = Decimal_0"
    "\<not> high_dose_warning d" if "Recipe.servings r = 0"
    using assms that
    by (auto simp: calculate_total_dosage_def split: sum.splits prod.splits)
  show "dec_div (total_thc_mg d) (dec_of_int (Recipe.servings r)) = Inr (thc_mg_per_serving d)"
    "dec_div (total_cbd_mg d) (dec_of_int (Recipe.servings r)) = Inr (cbd_mg_per_serving d)"
    "dec_gt (thc_mg_per_serving d) Decimal_10 = Inr (high_dose_warning d)"
    if "Recipe.servings r \<noteq> 0"
    using assms that
    by (auto simp: calculate_total_dosage_def split: sum.splits prod.splits)
qed

lemma calculate_total_dosage_zero_servings:
  assumes "Recipe.servings r = 0"
    and "sum_doses (cannabis_ingredients r) Decimal_0_00 Decimal_0_00 = Inr (t, c)"
  shows "calculate_total_dosage r = Inr (dosage_of Decimal_0 Decimal_0 t c 0 False)"
  using assms by (simp add: calculate_total_dosage_def dosage_of_def)

lemma calculate_total_dosage_loop_error:
  assumes "sum_doses (cannabis_ingredients r) Decimal_0_00 Decimal_0_00 = Inl e"
  shows "calculate_total_dosage r = Inl e"
  using assms by (simp add: calculate_total_dosage_def)

lemma dec_gt_Inr_exceeds:
  assumes "dec_gt x Decimal_10 = Inr w"
  shows "w = exceeds x 10"
proof -
  from assms have n: "\<not> is_nan x"
    by (auto simp: dec_gt_def split: if_splits)
  have "dval (Finite False 10 0) = 10"
    by (simp add: signed_def)
  with dec_gt_threshold [OF n, of False 10 0] assms show ?thesis
    by (simp add: Decimal_10_def)
qed

lemma dval_negative_sign: "dval (Finite True c e) \<le> 0"
proof -
  have "(0::rat) \<le> 10 powi e" by (simp add: zero_le_power_int)
  then have "0 \<le> rat_of_nat c * 10 powi e" by simp
  then show ?thesis by (simp add: signed_def)
qed

lemma not_exceeds_negative_sign: "\<not> exceeds (Finite True c e) 10"
  using dval_negative_sign [of c e] by simp

lemma dec_mul_nonneg:
  assumes "nonneg x" and "nonneg y" and "dec_mul x y = Inr r"
  shows "nonneg r"
proof -
  from assms(1) obtain s1 c1 e1 where x: "x = Finite s1 c1 e1" and x0: "\<not> s1 \<or> c1 = 0"
    by (cases x) auto
  from assms(2) obtain s2 c2 e2 where y: "y = Finite s2 c2 e2" and y0: "\<not> s2 \<or> c2 = 0"
    by (cases y) auto
  from assms(3) have f: "dec_fix (s1 \<noteq> s2) (c1 * c2) (e1 + e2) = Inr r"
    by (simp add: x y)
  from dec_fix_InrD [OF f]
  obtain c' e' where r: "r = Finite (s1 \<noteq> s2) c' e'" and z: "c1 * c2 = 0 \<longrightarrow> c' = 0"
    by auto
  from x0 y0 z show ?thesis
    unfolding r by auto
qed

lemma dec_add_nonneg:
  assumes "nonneg y" and "dec_add (Finite False c e) y = Inr r"
  shows "\<exists>c' e'. r = Finite False c' e'"
proof -
  from assms(1) obtain s2 c2 e2 where y: "y = Finite s2 c2 e2" and y0: "\<not> s2 \<or> c2 = 0"
    by (cases y) auto
  define m where "m = min e e2"
  define v where "v = signed False (c * 10 ^ nat (e - m)) + signed s2 (c2 * 10 ^ nat (e2 - m))"
  have v0: "0 \<le> v"
    using y0 by (auto simp: v_def signed_def)
  have "dec_add (Finite False c e) y =
          (if v = 0 then dec_fix False 0 m else dec_fix (v < 0) (nat \<bar>v\<bar>) m)"
    unfolding y v_def m_def by (simp add: Let_def)
  with assms(2) v0 have "dec_fix False 0 m = Inr r \<or> dec_fix False (nat \<bar>v\<bar>) m = Inr r"
    by (cases "v = 0") auto
  then show ?thesis
    by (auto dest: dec_fix_InrD)
qed

lemma sum_doses_nonneg:
  assumes "\<forall>(i, a) \<in> set xs. nonneg (thc_mg_per_gram i) \<and> nonneg a"
    and "sum_doses xs (Finite False c0 e0) cbd0 = Inr (t, c)"
  shows "\<exists>c' e'. t = Finite False c' e'"
  using assms
proof (induction xs arbitrary: c0 e0 cbd0)
  case Nil
  then show ?case by auto
next
  case (Cons x xs)
  obtain i a where x: "x = (i, a)" by (cases x)
  from Cons.prems(1) have nn: "nonneg (thc_mg_per_gram i)" "nonneg a"
    and rest: "\<forall>(i, a) \<in> set xs. nonneg (thc_mg_per_gram i) \<and> nonneg a"
    by (auto simp: x)
  from Cons.prems(2) obtain dose t1 cdose c1 where
    d: "dec_mul (thc_mg_per_gram i) a = Inr dose"
    and t1: "dec_add (Finite False c0 e0) dose = Inr t1"
    and r: "sum_doses xs t1 c1 = Inr (t, c)"
    by (auto simp: x calculate_thc_dose_def calculate_cbd_dose_def split: sum.splits)
  from dec_mul_nonneg [OF nn d] have "nonneg dose" .
  from dec_add_nonneg [OF this t1] obtain c' e' where "t1 = Finite False c' e'" by blast
  with Cons.IH [OF rest] r show ?case by blast
qed

lemma total_thc_nonneg:
  assumes "\<forall>(i, a) \<in> set (cannabis_ingredients r). nonneg (thc_mg_per_gram i) \<and> nonneg a"
    and "calculate_total_dosage r = Inr d"
  shows "\<exists>c' e'. total_thc_mg d = Finite False c' e'"
  using sum_doses_nonneg [OF assms(1)] calculate_total_dosage_Inr(1) [OF assms(2)]
  by (simp add: Decimal_0_00_def)

lemma per_serving_sign:
  assumes "calculate_total_dosage r = Inr d" and "Recipe.servings r \<noteq> 0"
    and "total_thc_mg d = Finite s c e"
  shows "\<exists>c' e'. thc_mg_per_serving d = Finite (s \<noteq> (Recipe.servings r < 0)) c' e'"
  using calculate_total_dosage_Inr(6) [OF assms(1,2)] dec_div_int_result [OF assms(2), of s c e]
  by (auto simp: assms(3))

lemma sum_doses_representable:
  assumes "sum_doses xs t0 c0 = Inr (t, c)" and "representable t0 \<or> \<not> is_finite t0"
  shows "representable t \<or> \<not> is_finite t"
  using assms
proof (induction xs arbitrary: t0 c0)
  case Nil
  then show ?case by auto
next
  case (Cons x xs)
  obtain i a where x: "x = (i, a)" by (cases x)
  from Cons.prems(1) obtain dose t1 c1 where
    t1: "dec_add t0 dose = Inr t1" and r: "sum_doses xs t1 c1 = Inr (t, c)"
    by (auto simp: x split: sum.splits)
  from dec_add_representable [OF t1] have "representable t1 \<or> \<not> is_finite t1"
    by blast
  with Cons.IH [OF r] show ?case .
qed

lemma total_thc_representable:
  assumes "calculate_total_dosage r = Inr d" and "is_finite (total_thc_mg d)"
  shows "representable (total_thc_mg d)"
proof -
  have "representable Decimal_0_00"
    by (simp add: Decimal_0_00_def prec_def Etiny_def Etop_def Emin_def Emax_def ndigits.simps)
  with sum_doses_representable [OF calculate_total_dosage_Inr(1) [OF assms(1)]] assms(2)
  show ?thesis by blast
qed

section \<open>When the computation returns\<close>

lemma ndigits_mono: "a \<le> b \<Longrightarrow> ndigits a \<le> ndigits b"
proof -
  assume "a \<le> b"
  also have "b < 10 ^ ndigits b" by (rule ndigits_upper)
  finally show ?thesis
    by (simp add: ndigits_le_iff ndigits_pos)
qed

lemma ndigits_mult_le: "ndigits (a * b) \<le> ndigits a + ndigits b"
proof -
  have "a * b < 10 ^ ndigits a * 10 ^ ndigits b"
    by (intro mult_strict_mono ndigits_upper) simp_all
  then have "a * b < 10 ^ (ndigits a + ndigits b)"
    by (simp add: power_add)
  then show ?thesis
    using ndigits_pos [of a] by (simp add: ndigits_le_iff)
qed

lemma ndigits_add_le:
  assumes "a < 10 ^ p" and "b < 10 ^ p"
  shows "ndigits (a + b) \<le> Suc p"
proof -
  from assms have "a + b < 2 * 10 ^ p" by simp
  also have "\<dots> \<le> 10 ^ Suc p" by simp
  finally show ?thesis by (simp add: ndigits_le_iff)
qed

lemma dec_fix_returns:
  assumes m: "int (ndigits c) + e \<le> M" and lo: "Etiny + int prec \<le> M" and hi: "M \<le> Emax"
  shows "\<exists>c' e'. dec_fix s c e = Inr (Finite s c' e') \<and> int (ndigits c') + e' \<le> M + 1"
proof (cases "c = 0")
  case True
  have one: "ndigits 0 = 1" by (subst ndigits.simps) simp
  have "dec_fix s c e = Inr (Finite s 0 (min (max e Etiny) Emax))"
    using True by (simp add: dec_fix_def)
  moreover have "int (ndigits 0) + min (max e Etiny) Emax \<le> M + 1"
    using m lo True by (simp add: one prec_def)
  ultimately show ?thesis by blast
next
  case False
  define exp_min0 where "exp_min0 = int (ndigits c) + e - int prec"
  define exp_min where "exp_min = max exp_min0 Etiny"
  define k where "k = nat (exp_min - e)"
  define q where "q = round_half_even c k"
  have fx: "dec_fix s c e =
      (if Etop < exp_min0 then Inl Overflow
       else if e < exp_min then
         (if Etop < (if prec < ndigits q then exp_min + 1 else exp_min) then Inl Overflow
          else Inr (Finite s (if prec < ndigits q then q div 10 else q)
                 (if prec < ndigits q then exp_min + 1 else exp_min)))
       else Inr (Finite s c e))"
    using False by (simp add: dec_fix_def Let_def exp_min0_def exp_min_def k_def q_def)
  have b0: "exp_min0 \<le> M - int prec"
    using m by (simp add: exp_min0_def)
  then have b: "exp_min \<le> M - int prec"
    using lo by (simp add: exp_min_def)
  have top: "M - int prec + 1 \<le> Etop"
    using hi by (simp add: Emax_eq)
  from b0 top have no: "\<not> Etop < exp_min0" by simp
  show ?thesis
  proof (cases "e < exp_min")
    case False
    with fx no m show ?thesis by simp
  next
    case rounded: True
    from b top have no2: "\<not> Etop < (if prec < ndigits q then exp_min + 1 else exp_min)"
      by simp
    show ?thesis
    proof (cases "prec < ndigits q")
      case carry: True
      have ek: "exp_min = e + int k" using rounded by (simp add: k_def)
      have "int (ndigits c) \<le> int k + int prec"
        using ek by (simp add: exp_min_def exp_min0_def)
      then have "ndigits c \<le> k + prec" by linarith
      from round_carry [OF this] carry have qp: "q = 10 ^ prec"
        by (simp add: q_def)
      have q10: "q div 10 = 10 ^ (prec - 1)"
        unfolding qp by (simp add: prec_def)
      have "ndigits (q div 10) = Suc (prec - 1)"
        unfolding q10 by (rule ndigits_pow10)
      then have nd: "int (ndigits (q div 10)) = int prec"
        by (simp add: prec_def)
      from fx no rounded carry no2
      have "dec_fix s c e = Inr (Finite s (q div 10) (exp_min + 1))"
        by simp
      moreover have "int (ndigits (q div 10)) + (exp_min + 1) \<le> M + 1"
        using b by (simp add: nd)
      ultimately show ?thesis by blast
    next
      case nocarry: False
      from fx no rounded nocarry no2
      have "dec_fix s c e = Inr (Finite s q exp_min)"
        by simp
      moreover have "int (ndigits q) + exp_min \<le> M + 1"
        using b nocarry by simp
      ultimately show ?thesis by blast
    qed
  qed
qed

lemma magnitude_belowE:
  assumes "magnitude_below A x"
  obtains s c e where "x = Finite s c e" and "int (ndigits c) + e \<le> A"
  using assms by (cases x) auto

lemma magnitude_below_mono: "magnitude_below A x \<Longrightarrow> A \<le> B \<Longrightarrow> magnitude_below B x"
  by (cases x) auto

lemma dec_mul_returns:
  assumes x: "magnitude_below A x" and y: "magnitude_below B y"
    and lo: "Etiny + int prec \<le> A + B" and hi: "A + B \<le> Emax"
  shows "\<exists>r. dec_mul x y = Inr r \<and> magnitude_below (A + B + 1) r"
proof -
  from x obtain s1 c1 e1 where x': "x = Finite s1 c1 e1" and b1: "int (ndigits c1) + e1 \<le> A"
    by (rule magnitude_belowE)
  from y obtain s2 c2 e2 where y': "y = Finite s2 c2 e2" and b2: "int (ndigits c2) + e2 \<le> B"
    by (rule magnitude_belowE)
  have "int (ndigits (c1 * c2)) \<le> int (ndigits c1) + int (ndigits c2)"
    using ndigits_mult_le [of c1 c2] by linarith
  with b1 b2 have "int (ndigits (c1 * c2)) + (e1 + e2) \<le> A + B" by simp
  from dec_fix_returns [OF this lo hi, of "s1 \<noteq> s2"] show ?thesis
    unfolding x' y' by auto
qed

lemma scaled_below:
  assumes "int (ndigits c) + e \<le> A" and "m \<le> e" and "m \<le> A"
  shows "c * 10 ^ nat (e - m) < 10 ^ nat (A - m)"
proof -
  have "c * 10 ^ nat (e - m) < 10 ^ ndigits c * 10 ^ nat (e - m)"
    using ndigits_upper [of c] by simp
  also have "\<dots> = 10 ^ (ndigits c + nat (e - m))"
    by (simp add: power_add)
  also have "\<dots> \<le> 10 ^ nat (A - m)"
    using assms by (intro power_increasing) auto
  finally show ?thesis .
qed

lemma abs_signed_sum: "nat \<bar>signed s1 a + signed s2 b\<bar> \<le> a + b"
proof -
  have "\<bar>signed s1 a + signed s2 b\<bar> \<le> int a + int b"
    unfolding signed_def by (cases s1; cases s2; simp)
  then show ?thesis by linarith
qed

lemma dec_add_returns:
  assumes x: "magnitude_below A x" and y: "magnitude_below A y"
    and lo: "Etiny + int prec \<le> A + 1" and hi: "A + 1 \<le> Emax"
  shows "\<exists>r. dec_add x y = Inr r \<and> magnitude_below (A + 2) r"
proof -
  from x obtain s1 c1 e1 where x': "x = Finite s1 c1 e1" and b1: "int (ndigits c1) + e1 \<le> A"
    by (rule magnitude_belowE)
  from y obtain s2 c2 e2 where y': "y = Finite s2 c2 e2" and b2: "int (ndigits c2) + e2 \<le> A"
    by (rule magnitude_belowE)
  define m where "m = min e1 e2"
  define v where "v = signed s1 (c1 * 10 ^ nat (e1 - m)) + signed s2 (c2 * 10 ^ nat (e2 - m))"
  have add: "dec_add x y = (if v = 0 then dec_fix (s1 \<and> s2) 0 m else dec_fix (v < 0) (nat \<bar>v\<bar>) m)"
    unfolding x' y' v_def m_def by (simp add: Let_def)
  have m1: "m \<le> e1" and m2: "m \<le> e2" by (simp_all add: m_def)
  have pos: "0 < ndigits c1" by (rule ndigits_pos)
  with b1 m1 have mA: "m \<le> A" by linarith
  have "nat \<bar>v\<bar> \<le> c1 * 10 ^ nat (e1 - m) + c2 * 10 ^ nat (e2 - m)"
    unfolding v_def by (rule abs_signed_sum)
  then have "ndigits (nat \<bar>v\<bar>) \<le> ndigits (c1 * 10 ^ nat (e1 - m) + c2 * 10 ^ nat (e2 - m))"
    by (rule ndigits_mono)
  also have "\<dots> \<le> Suc (nat (A - m))"
    by (rule ndigits_add_le) (rule scaled_below [OF b1 m1 mA], rule scaled_below [OF b2 m2 mA])
  finally have "int (ndigits (nat \<bar>v\<bar>)) + m \<le> A + 1"
    using mA by linarith
  from dec_fix_returns [OF this lo hi]
  have nz: "\<exists>c' e'. dec_fix s (nat \<bar>v\<bar>) m = Inr (Finite s c' e') \<and> int (ndigits c') + e' \<le> A + 1 + 1" for s
    .
  show ?thesis
  proof (cases "v = 0")
    case True
    with nz [of "s1 \<and> s2"] add show ?thesis
      by auto
  next
    case False
    with nz [of "v < 0"] add show ?thesis
      by auto
  qed
qed

lemma sum_doses_returns:
  assumes items: "\<forall>(i, a) \<in> set xs. magnitude_below A (thc_mg_per_gram i)
        \<and> magnitude_below A (cbd_mg_per_gram i) \<and> magnitude_below A a"
    and A: "0 \<le> A" and B: "2 * A + 1 \<le> B"
    and hi: "B + 2 * int (length xs) \<le> Emax"
    and t0: "magnitude_below B t0" and c0: "magnitude_below B c0"
  shows "\<exists>t c. sum_doses xs t0 c0 = Inr (t, c)
           \<and> magnitude_below (B + 2 * int (length xs)) t
           \<and> magnitude_below (B + 2 * int (length xs)) c"
  using items B hi t0 c0
proof (induction xs arbitrary: B t0 c0)
  case Nil
  then show ?case by simp
next
  case (Cons x xs)
  obtain i a where x: "x = (i, a)" by (cases x)
  from Cons.prems(1) have thc: "magnitude_below A (thc_mg_per_gram i)"
    and cbd: "magnitude_below A (cbd_mg_per_gram i)" and am: "magnitude_below A a"
    and rest: "\<forall>(i, a) \<in> set xs. magnitude_below A (thc_mg_per_gram i)
        \<and> magnitude_below A (cbd_mg_per_gram i) \<and> magnitude_below A a"
    by (auto simp: x)
  have tiny: "Etiny + int prec \<le> 0"
    by (simp add: Etiny_def Emin_def prec_def)
  from tiny A have lo1: "Etiny + int prec \<le> A + A" by simp
  from Cons.prems(2,3) have hi1: "A + A \<le> Emax" by simp
  from dec_mul_returns [OF thc am lo1 hi1] obtain d1 where
    d1: "dec_mul (thc_mg_per_gram i) a = Inr d1" and d1b: "magnitude_below (A + A + 1) d1"
    by blast
  from dec_mul_returns [OF cbd am lo1 hi1] obtain d2 where
    d2: "dec_mul (cbd_mg_per_gram i) a = Inr d2" and d2b: "magnitude_below (A + A + 1) d2"
    by blast
  from Cons.prems(2) have AB: "A + A + 1 \<le> B" by simp
  from tiny A AB have lo2: "Etiny + int prec \<le> B + 1" by simp
  from Cons.prems(3) have hi2: "B + 1 \<le> Emax" by simp
  from dec_add_returns [OF Cons.prems(4) magnitude_below_mono [OF d1b AB] lo2 hi2] obtain t1 where
    t1: "dec_add t0 d1 = Inr t1" and t1b: "magnitude_below (B + 2) t1"
    by blast
  from dec_add_returns [OF Cons.prems(5) magnitude_below_mono [OF d2b AB] lo2 hi2] obtain c1 where
    c1: "dec_add c0 d2 = Inr c1" and c1b: "magnitude_below (B + 2) c1"
    by blast
  have B2: "2 * A + 1 \<le> B + 2" using Cons.prems(2) by simp
  have hi3: "B + 2 + 2 * int (length xs) \<le> Emax" using Cons.prems(3) by simp
  from Cons.IH [OF rest B2 hi3 t1b c1b] obtain t c where
    "sum_doses xs t1 c1 = Inr (t, c)"
    "magnitude_below (B + 2 + 2 * int (length xs)) t"
    "magnitude_below (B + 2 + 2 * int (length xs)) c"
    by blast
  moreover have "B + 2 + 2 * int (length xs) = B + 2 * int (length (x # xs))"
    by simp
  ultimately show ?case
    by (simp add: x calculate_thc_dose_def calculate_cbd_dose_def d1 d2 t1 c1)
qed

lemma strip_zeros_top:
  "strip_zeros c e i = (c', e') \<Longrightarrow>
     int (ndigits c') + e' \<le> max (int (ndigits c) + e) (1 + i)"
proof (induction c e i rule: strip_zeros.induct)
  case (1 coeff e ideal)
  show ?case
  proof (cases "e < ideal \<and> coeff mod 10 = 0")
    case True
    with "1.prems" have r: "strip_zeros (coeff div 10) (e + 1) ideal = (c', e')"
      by (subst (asm) strip_zeros.simps) simp
    from "1.IH" [OF True r]
    have ih: "int (ndigits c') + e' \<le> max (int (ndigits (coeff div 10)) + (e + 1)) (1 + ideal)" .
    show ?thesis
    proof (cases "coeff < 10")
      case small: True
      with True have "coeff = 0" by presburger
      then have "ndigits (coeff div 10) = 1"
        by (subst ndigits.simps) simp
      with ih True show ?thesis by simp
    next
      case False
      then have "ndigits coeff = Suc (ndigits (coeff div 10))"
        by (subst ndigits.simps) simp
      with ih show ?thesis by simp
    qed
  next
    case False
    with "1.prems" have "c' = coeff" "e' = e"
      by (subst (asm) strip_zeros.simps, simp)+
    then show ?thesis by simp
  qed
qed

lemma div_finite_returns:
  assumes c2: "0 < c2" and nd: "ndigits c1 \<le> ndigits c2 + prec + 1"
    and m: "int (ndigits c1) + e1 - e2 \<le> M" and lo: "Etiny + int prec \<le> M" and hi: "M \<le> Emax"
  shows "\<exists>c' e'. div_finite s c1 e1 c2 e2 = Inr (Finite s c' e')"
proof (cases "c1 = 0")
  case True
  then show ?thesis
    by (simp add: div_finite_def dec_fix_def)
next
  case False
  define k where "k = ndigits c2 + prec + 1 - ndigits c1"
  define e where "e = e1 - e2 - int k"
  define N where "N = c1 * 10 ^ k"
  have shift: "int (ndigits c2) - int (ndigits c1) + int prec + 1 = int k"
    using nd by (simp add: k_def)
  have df: "div_finite s c1 e1 c2 e2 =
      (if N mod c2 \<noteq> 0
       then dec_fix s (if (N div c2) mod 5 = 0 then N div c2 + 1 else N div c2) e
       else (case strip_zeros (N div c2) e (e1 - e2) of (coeff', e') \<Rightarrow> dec_fix s coeff' e'))"
    unfolding div_finite_def Let_def shift using False
    by (simp add: N_def e_def)
  from False have "0 < c1" by simp
  then have ndN: "ndigits N = ndigits c1 + k"
    unfolding N_def by (rule ndigits_mult_pow10)
  have topN: "int (ndigits N) + e \<le> M"
    using m by (simp add: ndN e_def)
  show ?thesis
  proof (cases "N mod c2 = 0")
    case inexact: False
    define cf where "cf = (if (N div c2) mod 5 = 0 then N div c2 + 1 else N div c2)"
    have "N = N div c2 * c2 + N mod c2" by simp
    moreover have "N div c2 \<le> N div c2 * c2" using c2 by simp
    ultimately have "N div c2 + 1 \<le> N" using inexact by linarith
    then have "cf \<le> N" by (simp add: cf_def)
    then have "ndigits cf \<le> ndigits N" by (rule ndigits_mono)
    with topN have "int (ndigits cf) + e \<le> M" by linarith
    from dec_fix_returns [OF this lo hi, of s] df inexact show ?thesis
      by (auto simp: cf_def)
  next
    case exact: True
    obtain c' e' where sz: "strip_zeros (N div c2) e (e1 - e2) = (c', e')"
      by (cases "strip_zeros (N div c2) e (e1 - e2)")
    have "N div c2 \<le> N" by simp
    then have "ndigits (N div c2) \<le> ndigits N" by (rule ndigits_mono)
    with topN have "int (ndigits (N div c2)) + e \<le> M" by linarith
    moreover have "1 + (e1 - e2) \<le> M"
      using m ndigits_pos [of c1] by linarith
    ultimately have "int (ndigits c') + e' \<le> M"
      using strip_zeros_top [OF sz] by simp
    from dec_fix_returns [OF this lo hi, of s] df exact sz show ?thesis
      by auto
  qed
qed

lemma dec_div_int_returns:
  assumes n: "n \<noteq> 0" and rep: "representable x" and m: "magnitude_below M x"
    and lo: "Etiny + int prec \<le> M" and hi: "M \<le> Emax"
  shows "\<exists>s c e. dec_div x (dec_of_int n) = Inr (Finite s c e)"
proof -
  from m obtain s1 c1 e1 where x: "x = Finite s1 c1 e1" and b: "int (ndigits c1) + e1 \<le> M"
    by (rule magnitude_belowE)
  from rep have "c1 < 10 ^ prec" by (simp add: x)
  then have "ndigits c1 \<le> prec" by (simp add: ndigits_le_iff prec_def)
  then have nd: "ndigits c1 \<le> ndigits (nat \<bar>n\<bar>) + prec + 1" by simp
  from n have c2: "0 < nat \<bar>n\<bar>" by simp
  from b have "int (ndigits c1) + e1 - 0 \<le> M" by simp
  from div_finite_returns [OF c2 nd this lo hi, of "s1 \<noteq> (n < 0)"] n show ?thesis
    by (auto simp: x dec_of_int_def)
qed

lemma sum_doses_cbd_representable:
  assumes "sum_doses xs t0 c0 = Inr (t, c)" and "representable c0 \<or> \<not> is_finite c0"
  shows "representable c \<or> \<not> is_finite c"
  using assms
proof (induction xs arbitrary: t0 c0)
  case Nil
  then show ?case by auto
next
  case (Cons x xs)
  obtain i a where x: "x = (i, a)" by (cases x)
  from Cons.prems(1) obtain dose t1 c1 where
    c1: "dec_add c0 dose = Inr c1" and r: "sum_doses xs t1 c1 = Inr (t, c)"
    by (auto simp: x split: sum.splits)
  from dec_add_representable [OF c1] have "representable c1 \<or> \<not> is_finite c1"
    by blast
  with Cons.IH [OF r] show ?case .
qed

lemma modest_sum_doses:
  assumes "modest A r"
  shows "\<exists>t c. sum_doses (cannabis_ingredients r) Decimal_0_00 Decimal_0_00 = Inr (t, c)
           \<and> magnitude_below (2 * A + 1 + 2 * int (length (cannabis_ingredients r))) t
           \<and> magnitude_below (2 * A + 1 + 2 * int (length (cannabis_ingredients r))) c
           \<and> representable t \<and> representable c"
proof -
  let ?xs = "cannabis_ingredients r"
  from assms have A: "0 \<le> A" and hi: "2 * A + 1 + 2 * int (length ?xs) \<le> Emax"
    and items: "\<forall>(i, a) \<in> set ?xs. magnitude_below A (thc_mg_per_gram i)
        \<and> magnitude_below A (cbd_mg_per_gram i) \<and> magnitude_below A a"
    by (simp_all add: modest_def)
  have one: "ndigits 0 = 1" by (subst ndigits.simps) simp
  from A have z: "magnitude_below (2 * A + 1) Decimal_0_00"
    by (simp add: Decimal_0_00_def one)
  have rz: "representable Decimal_0_00"
    by (simp add: Decimal_0_00_def one prec_def Etiny_def Etop_def Emin_def Emax_def)
  from sum_doses_returns [OF items A order_refl hi z z] obtain t c where
    s: "sum_doses ?xs Decimal_0_00 Decimal_0_00 = Inr (t, c)"
    and t: "magnitude_below (2 * A + 1 + 2 * int (length ?xs)) t"
    and c: "magnitude_below (2 * A + 1 + 2 * int (length ?xs)) c"
    by blast
  from t have ft: "is_finite t" by (cases t) simp_all
  from c have fc: "is_finite c" by (cases c) simp_all
  from sum_doses_representable [OF s] rz ft have "representable t" by blast
  moreover from sum_doses_cbd_representable [OF s] rz fc have "representable c" by blast
  ultimately show ?thesis using s t c by blast
qed


lemma calculate_total_dosage_returns:
  assumes "modest A r"
  shows "\<exists>d. calculate_total_dosage r = Inr d"
proof -
  let ?M = "2 * A + 1 + 2 * int (length (cannabis_ingredients r))"
  from modest_sum_doses [OF assms] obtain t c where
    s: "sum_doses (cannabis_ingredients r) Decimal_0_00 Decimal_0_00 = Inr (t, c)"
    and t: "magnitude_below ?M t" and c: "magnitude_below ?M c"
    and rt: "representable t" and rc: "representable c"
    by blast
  show ?thesis
  proof (cases "Recipe.servings r = 0")
    case True
    from calculate_total_dosage_zero_servings [OF True s] show ?thesis by blast
  next
    case False
    from assms have hi: "?M \<le> Emax" and "0 \<le> A"
      by (simp_all add: modest_def)
    then have lo: "Etiny + int prec \<le> ?M"
      by (simp add: Etiny_def Emin_def prec_def)
    from dec_div_int_returns [OF False rt t lo hi] obtain s1 q1 e1 where
      d1: "dec_div t (dec_of_int (Recipe.servings r)) = Inr (Finite s1 q1 e1)"
      by blast
    from dec_div_int_returns [OF False rc c lo hi] obtain s2 q2 e2 where
      d2: "dec_div c (dec_of_int (Recipe.servings r)) = Inr (Finite s2 q2 e2)"
      by blast
    show ?thesis
      using False by (simp add: calculate_total_dosage_def s d1 d2 dec_gt_def Decimal_10_def)
  qed
qed

section \<open>When a quotient is not zero\<close>

lemma ndigits_ge:
  assumes "10 ^ p \<le> c"
  shows "Suc p \<le> ndigits c"
proof (rule ccontr)
  assume "\<not> Suc p \<le> ndigits c"
  then have le: "ndigits c \<le> p" by simp
  with ndigits_pos [of c] have "0 < p" by simp
  from ndigits_le_iff [OF this, of c] le have "c < 10 ^ p" by simp
  with assms show False by simp
qed

lemma dec_fix_nonzero:
  assumes c: "0 < c" and lo: "Etiny \<le> int (ndigits c) + e - int prec"
    and r: "dec_fix s c e = Inr (Finite s' c' e')"
  shows "0 < c'"
proof -
  define exp_min0 where "exp_min0 = int (ndigits c) + e - int prec"
  define k where "k = nat (exp_min0 - e)"
  define q where "q = round_half_even c k"
  from lo have em: "max exp_min0 Etiny = exp_min0" by (simp add: exp_min0_def)
  have fx: "dec_fix s c e =
      (if Etop < exp_min0 then Inl Overflow
       else if e < exp_min0 then
         (if Etop < (if prec < ndigits q then exp_min0 + 1 else exp_min0) then Inl Overflow
          else Inr (Finite s (if prec < ndigits q then q div 10 else q)
                 (if prec < ndigits q then exp_min0 + 1 else exp_min0)))
       else Inr (Finite s c e))"
    using c by (simp add: dec_fix_def Let_def exp_min0_def [symmetric] em k_def q_def)
  show ?thesis
  proof (cases "e < exp_min0")
    case False
    with r fx c show ?thesis by (auto split: if_splits)
  next
    case True
    then have nk: "ndigits c = k + prec" and k: "0 < k"
      by (simp_all add: k_def exp_min0_def)
    have "0 < prec" by (simp add: prec_def)
    with nk have "ndigits c - 1 = (prec - 1) + k" by simp
    then have "(10::nat) ^ (prec - 1) * 10 ^ k = 10 ^ (ndigits c - 1)"
      by (simp add: power_add)
    also have "\<dots> \<le> c" by (rule ndigits_lower [OF c])
    finally have "10 ^ (prec - 1) \<le> c div 10 ^ k"
      by (simp add: less_eq_div_iff_mult_less_eq)
    moreover have "c div 10 ^ k \<le> q"
      using round_half_even_cases [of c k] by (auto simp: q_def)
    ultimately have q1: "10 ^ (prec - 1) \<le> q" by simp
    then have "(10::nat) ^ (prec - 1) div 10 \<le> q div 10" by (rule div_le_mono)
    then have q2: "0 < q div 10" by (simp add: prec_def)
    from q1 have q3: "0 < q"
      by (rule less_le_trans [rotated]) simp
    from r fx True q2 q3 show ?thesis
      by (auto split: if_splits)
  qed
qed

lemma strip_zeros_value:
  assumes "strip_zeros c e i = (c', e')" and "0 < c"
  shows "\<exists>j. c = c' * 10 ^ j \<and> e' = e + int j \<and> 0 < c'"
  using assms
proof (induction c e i rule: strip_zeros.induct)
  case (1 coeff e ideal)
  show ?case
  proof (cases "e < ideal \<and> coeff mod 10 = 0")
    case True
    with "1.prems" have r: "strip_zeros (coeff div 10) (e + 1) ideal = (c', e')"
      by (subst (asm) strip_zeros.simps) simp
    from True "1.prems"(2) have c10: "coeff = coeff div 10 * 10" and pos: "0 < coeff div 10"
      by presburger+
    from "1.IH" [OF True r pos] obtain j where
      j: "coeff div 10 = c' * 10 ^ j" "e' = e + 1 + int j" "0 < c'"
      by blast
    from c10 j(1) have "coeff = c' * 10 ^ Suc j" by simp
    moreover from j(2) have "e' = e + int (Suc j)" by simp
    ultimately show ?thesis using j(3) by blast
  next
    case False
    with "1.prems" have "c' = coeff" "e' = e"
      by (subst (asm) strip_zeros.simps, simp)+
    with "1.prems"(2) have "coeff = c' * 10 ^ 0 \<and> e' = e + int 0 \<and> 0 < c'" by simp
    then show ?thesis by blast
  qed
qed

lemma div_finite_nonzero:
  assumes c1: "0 < c1" and c2: "0 < c2" and nd: "ndigits c1 \<le> ndigits c2 + prec + 1"
    and lo: "Etiny + int prec + int (ndigits c2) \<le> int (ndigits c1) + e1 - e2"
    and r: "div_finite s c1 e1 c2 e2 = Inr (Finite s' c' e')"
  shows "0 < c'"
proof -
  define k where "k = ndigits c2 + prec + 1 - ndigits c1"
  define e where "e = e1 - e2 - int k"
  define N where "N = c1 * 10 ^ k"
  have shift: "int (ndigits c2) - int (ndigits c1) + int prec + 1 = int k"
    using nd by (simp add: k_def)
  have df: "div_finite s c1 e1 c2 e2 =
      (if N mod c2 \<noteq> 0
       then dec_fix s (if (N div c2) mod 5 = 0 then N div c2 + 1 else N div c2) e
       else (case strip_zeros (N div c2) e (e1 - e2) of (coeff', e') \<Rightarrow> dec_fix s coeff' e'))"
    unfolding div_finite_def Let_def shift using c1
    by (simp add: N_def e_def)
  have "10 ^ prec * c2 \<le> 10 ^ prec * 10 ^ ndigits c2"
    using ndigits_upper [of c2] by simp
  also have "\<dots> = 10 ^ (ndigits c1 - 1) * 10 ^ k"
    using nd ndigits_pos [of c1] by (simp add: power_add [symmetric] k_def)
  also have "\<dots> \<le> N"
    unfolding N_def using ndigits_lower [OF c1] by simp
  finally have big: "10 ^ prec \<le> N div c2"
    using c2 by (simp add: less_eq_div_iff_mult_less_eq)
  have top: "Etiny + int prec \<le> int (Suc prec) + e"
    using lo nd by (simp add: e_def k_def)
  show ?thesis
  proof (cases "N mod c2 = 0")
    case False
    define cf where "cf = (if (N div c2) mod 5 = 0 then N div c2 + 1 else N div c2)"
    from big have "10 ^ prec \<le> cf" by (simp add: cf_def)
    then have "Suc prec \<le> ndigits cf" and pos: "0 < cf"
      by (rule ndigits_ge, rule less_le_trans [rotated]) simp
    with top have "Etiny \<le> int (ndigits cf) + e - int prec" by linarith
    from dec_fix_nonzero [OF pos this] r df False show ?thesis
      by (simp add: cf_def)
  next
    case True
    obtain c'' e'' where sz: "strip_zeros (N div c2) e (e1 - e2) = (c'', e'')"
      by (cases "strip_zeros (N div c2) e (e1 - e2)")
    from big have pos: "0 < N div c2"
      by (rule less_le_trans [rotated]) simp
    from strip_zeros_value [OF sz pos] obtain j where
      j: "N div c2 = c'' * 10 ^ j" "e'' = e + int j" "0 < c''"
      by blast
    have "ndigits (N div c2) = ndigits c'' + j"
      unfolding j(1) by (rule ndigits_mult_pow10 [OF j(3)])
    moreover from big have "Suc prec \<le> ndigits (N div c2)" by (rule ndigits_ge)
    ultimately have "Etiny \<le> int (ndigits c'') + e'' - int prec"
      using top j(2) by linarith
    from dec_fix_nonzero [OF j(3) this] r df True sz show ?thesis
      by simp
  qed
qed

lemma dval_negative_iff: "dval (Finite True c e) < 0 \<longleftrightarrow> 0 < c"
proof -
  have "(0::rat) < 10 powi e" by (simp add: zero_less_power_int)
  then show ?thesis
    by (simp add: signed_def mult_less_0_iff zero_less_mult_iff)
qed

lemma per_serving_negative:
  assumes ret: "calculate_total_dosage r = Inr d" and neg: "Recipe.servings r < 0"
    and t: "total_thc_mg d = Finite False c e" and c: "0 < c"
    and lo: "Etiny + int prec + int (ndigits (nat \<bar>Recipe.servings r\<bar>)) \<le> int (ndigits c) + e"
  shows "dval (thc_mg_per_serving d) < 0"
proof -
  from neg have n0: "Recipe.servings r \<noteq> 0" by simp
  from total_thc_representable [OF ret] t have "c < 10 ^ prec" by simp
  then have "ndigits c \<le> prec" by (simp add: ndigits_le_iff prec_def)
  then have nd: "ndigits c \<le> ndigits (nat \<bar>Recipe.servings r\<bar>) + prec + 1" by simp
  from per_serving_sign [OF ret n0 t] neg obtain c' e' where
    p: "thc_mg_per_serving d = Finite True c' e'"
    by auto
  from calculate_total_dosage_Inr(6) [OF ret n0] n0
  have "div_finite True c e (nat \<bar>Recipe.servings r\<bar>) 0 = Inr (Finite True c' e')"
    using neg by (simp add: t p dec_of_int_def)
  from div_finite_nonzero [OF c _ nd _ this] n0 lo have "0 < c'"
    by simp
  then show ?thesis
    unfolding p by (simp only: dval_negative_iff)
qed


section \<open>The error of a quotient\<close>

lemma dec_fix_exponent:
  assumes "dec_fix s c e = Inr (Finite s' c' e')" and "c \<noteq> 0"
  shows "int (ndigits c) + e - int prec \<le> e'"
proof -
  define exp_min0 where "exp_min0 = int (ndigits c) + e - int prec"
  have "exp_min0 \<le> max exp_min0 Etiny" by simp
  moreover have "\<not> e < max exp_min0 Etiny \<Longrightarrow> exp_min0 \<le> e" by simp
  ultimately show ?thesis
    using assms unfolding dec_fix_def Let_def exp_min0_def [symmetric]
    by (auto split: if_splits)
qed

lemma floor_quotient_error:
  fixes N c2 :: nat
  assumes "0 < c2"
  shows "\<bar>(of_nat (N div c2) :: rat) - of_nat N / of_nat c2\<bar> \<le> 1"
    and "\<bar>(of_nat (N div c2 + 1) :: rat) - of_nat N / of_nat c2\<bar> \<le> 1"
proof -
  have c: "(0::rat) < of_nat c2" using assms by simp
  have "(of_nat N :: rat) = of_nat (N div c2 * c2 + N mod c2)" by simp
  also have "\<dots> = of_nat (N div c2) * of_nat c2 + of_nat (N mod c2)"
    by (simp only: of_nat_add of_nat_mult)
  finally have n: "(of_nat N :: rat) = of_nat (N div c2) * of_nat c2 + of_nat (N mod c2)" .
  have "N mod c2 < c2" using assms by simp
  then have m: "(of_nat (N mod c2) :: rat) < of_nat c2" by (rule iffD2 [OF of_nat_less_iff])
  have q: "(of_nat N :: rat) / of_nat c2 = of_nat (N div c2) + of_nat (N mod c2) / of_nat c2"
    unfolding n using c by (simp add: add_divide_distrib)
  have f0: "(0::rat) \<le> of_nat (N mod c2) / of_nat c2" by simp
  have f1: "(of_nat (N mod c2) :: rat) / of_nat c2 < 1" using m c by simp
  show "\<bar>(of_nat (N div c2) :: rat) - of_nat N / of_nat c2\<bar> \<le> 1"
    unfolding q using f0 f1 by simp
  show "\<bar>(of_nat (N div c2 + 1) :: rat) - of_nat N / of_nat c2\<bar> \<le> 1"
    unfolding q using f0 f1 by simp
qed

lemma dval_diff_coeff:
  "\<bar>dval (Finite s c e) - of_int (signed s 1) * x * 10 powi e\<bar> = \<bar>of_nat c - x\<bar> * 10 powi e"
proof -
  have p: "(0::rat) \<le> 10 powi e" by simp
  have "dval (Finite s c e) - of_int (signed s 1) * x * 10 powi e
          = of_int (signed s 1) * ((of_nat c - x) * 10 powi e)"
    by (cases s) (simp_all add: signed_def algebra_simps)
  moreover have "\<bar>(of_int (signed s 1) :: rat)\<bar> = 1"
    by (cases s) (simp_all add: signed_def)
  ultimately show ?thesis
    using p by (simp add: abs_mult)
qed


lemma quotient_digits:
  assumes c1: "0 < c1" and c2: "0 < c2" and nd: "ndigits c1 \<le> ndigits c2 + prec + 1"
  shows "10 ^ prec \<le> c1 * 10 ^ (ndigits c2 + prec + 1 - ndigits c1) div c2"
proof -
  define k where "k = ndigits c2 + prec + 1 - ndigits c1"
  have "10 ^ prec * c2 \<le> 10 ^ prec * 10 ^ ndigits c2"
    using ndigits_upper [of c2] by simp
  also have "\<dots> = 10 ^ (ndigits c1 - 1) * 10 ^ k"
    using nd ndigits_pos [of c1] by (simp add: power_add [symmetric] k_def)
  also have "\<dots> \<le> c1 * 10 ^ k"
    using ndigits_lower [OF c1] by simp
  finally show ?thesis
    using c2 by (simp add: less_eq_div_iff_mult_less_eq k_def)
qed

lemma below_unit:
  fixes x y z P p :: rat
  assumes "x * 2 \<le> P" and "y \<le> p" and "p * 10 \<le> P" and "0 < P" and "z \<le> x + y"
  shows "z < P"
  using assms by linarith

lemma within_one_unit:
  fixes a b c P p :: rat
  assumes "\<bar>a - b\<bar> * 2 \<le> P" and "\<bar>b - c\<bar> \<le> p" and "p * 10 \<le> P" and "0 < P"
  shows "\<bar>a - c\<bar> < P"
proof -
  have "\<bar>a - c\<bar> \<le> \<bar>a - b\<bar> + \<bar>b - c\<bar>" by simp
  with assms show ?thesis by (rule below_unit)
qed

lemma div_finite_error:
  assumes c2: "0 < c2" and nd: "ndigits c1 \<le> ndigits c2 + prec + 1"
    and r: "div_finite s c1 e1 c2 e2 = Inr (Finite s' c' e')"
  shows "\<bar>dval (Finite s' c' e')
            - of_int (signed s 1) * (of_nat c1 / of_nat c2) * 10 powi (e1 - e2)\<bar> < 10 powi e'"
proof (cases "c1 = 0")
  case True
  with r have "dec_fix s 0 (e1 - e2) = Inr (Finite s' c' e')"
    by (simp add: div_finite_def)
  then have "c' = 0" by (auto dest: dec_fix_InrD)
  with True show ?thesis
    by (simp add: signed_def zero_less_power_int)
next
  case False
  then have c1: "0 < c1" by simp
  define k where "k = ndigits c2 + prec + 1 - ndigits c1"
  define e where "e = e1 - e2 - int k"
  define N where "N = c1 * 10 ^ k"
  define x :: rat where "x = of_nat N / of_nat c2"
  define P :: rat where "P = 10 powi e'"
  have P: "0 < P" by (simp add: P_def zero_less_power_int)
  have shift: "int (ndigits c2) - int (ndigits c1) + int prec + 1 = int k"
    using nd by (simp add: k_def)
  have df: "div_finite s c1 e1 c2 e2 =
      (if N mod c2 \<noteq> 0
       then dec_fix s (if (N div c2) mod 5 = 0 then N div c2 + 1 else N div c2) e
       else (case strip_zeros (N div c2) e (e1 - e2) of (coeff', e') \<Rightarrow> dec_fix s coeff' e'))"
    unfolding div_finite_def Let_def shift using False
    by (simp add: N_def e_def)
  have big: "10 ^ prec \<le> N div c2"
    unfolding N_def k_def by (rule quotient_digits [OF c1 c2 nd])
  have le: "e \<le> e1 - e2" by (simp add: e_def)
  have "(of_nat c1 / of_nat c2 :: rat) * 10 powi (e1 - e2)
          = of_nat c1 / of_nat c2 * (10 ^ nat (e1 - e2 - e) * 10 powi e)"
    by (simp only: pow10_shift [OF le])
  also have "nat (e1 - e2 - e) = k" by (simp add: e_def)
  also have "(of_nat c1 / of_nat c2 :: rat) * (10 ^ k * 10 powi e) = x * 10 powi e"
    by (simp add: x_def N_def)
  finally have q: "(of_nat c1 / of_nat c2 :: rat) * 10 powi (e1 - e2) = x * 10 powi e" .
  have "of_int (signed s 1) * (of_nat c1 / of_nat c2) * 10 powi (e1 - e2)
      = of_int (signed s 1) * ((of_nat c1 / of_nat c2) * 10 powi (e1 - e2))"
    by (rule mult.assoc)
  also have "\<dots> = of_int (signed s 1) * (x * 10 powi e)"
    by (simp only: q)
  also have "\<dots> = of_int (signed s 1) * x * 10 powi e"
    by (rule mult.assoc [symmetric])
  finally have target: "of_int (signed s 1) * (of_nat c1 / of_nat c2) * 10 powi (e1 - e2)
      = of_int (signed s 1) * x * 10 powi e" .
  show ?thesis
  proof (cases "N mod c2 = 0")
    case inexact: False
    define cf where "cf = (if (N div c2) mod 5 = 0 then N div c2 + 1 else N div c2)"
    from r df inexact have fx: "dec_fix s cf e = Inr (Finite s' c' e')"
      by (simp add: cf_def)
    from dec_fix_error [OF fx] have a: "\<bar>dval (Finite s' c' e') - dval (Finite s cf e)\<bar> * 2 \<le> P"
      by (auto simp: P_def)
    have "\<bar>of_nat cf - x\<bar> \<le> 1"
      unfolding cf_def x_def using floor_quotient_error [OF c2, of N] by auto
    then have "\<bar>of_nat cf - x\<bar> * 10 powi e \<le> 1 * 10 powi e"
      by (rule mult_right_mono) simp
    then have b: "\<bar>dval (Finite s cf e) - of_int (signed s 1) * x * 10 powi e\<bar> \<le> 10 powi e"
      by (simp only: dval_diff_coeff mult_1)
    from big have "10 ^ prec \<le> cf" by (simp add: cf_def)
    then have "Suc prec \<le> ndigits cf" by (rule ndigits_ge)
    moreover have "(0::nat) < 10 ^ prec" by simp
    with \<open>10 ^ prec \<le> cf\<close> have "cf \<noteq> 0" by linarith
    ultimately have "Suc prec \<le> ndigits cf" and "cf \<noteq> 0" by blast+
    with dec_fix_exponent [OF fx] have "e + 1 \<le> e'" by linarith
    then have "(10::rat) powi (e + 1) \<le> 10 powi e'" by (rule pow10_mono)
    then have c: "(10::rat) powi e * 10 \<le> P"
      by (simp add: power_int_add P_def)
    from within_one_unit [OF a b c P] show ?thesis
      unfolding target P_def .
  next
    case exact: True
    obtain c'' e'' where sz: "strip_zeros (N div c2) e (e1 - e2) = (c'', e'')"
      by (cases "strip_zeros (N div c2) e (e1 - e2)")
    from big have pos: "0 < N div c2"
      by (rule less_le_trans [rotated]) simp
    from strip_zeros_value [OF sz pos] obtain j where
      j: "N div c2 = c'' * 10 ^ j" "e'' = e + int j" "0 < c''"
      by blast
    from r df exact sz have fx: "dec_fix s c'' e'' = Inr (Finite s' c' e')"
      by simp
    from dec_fix_error [OF fx] have a: "\<bar>dval (Finite s' c' e') - dval (Finite s c'' e'')\<bar> * 2 \<le> P"
      by (auto simp: P_def)
    have le': "e \<le> e''" using j(2) by simp
    have "dval (Finite s c'' e'') = of_int (signed s (c'' * 10 ^ nat (e'' - e))) * 10 powi e"
      by (rule dval_scaled [OF le', symmetric])
    also have "nat (e'' - e) = j" using j(2) by simp
    finally have v: "dval (Finite s c'' e'') = dval (Finite s (N div c2) e)"
      by (simp add: j(1))
    from exact have "N = N div c2 * c2"
      using div_mult_mod_eq [of N c2] by simp
    then have "(of_nat N :: rat) = of_nat (N div c2 * c2)" by (rule arg_cong)
    then have "x = of_nat (N div c2)"
      using c2 by (simp add: x_def)
    then have "\<bar>of_nat (N div c2) - x\<bar> * 10 powi e = 0" by simp
    then have b: "\<bar>dval (Finite s c'' e'') - of_int (signed s 1) * x * 10 powi e\<bar> \<le> 0"
      unfolding v by (simp only: dval_diff_coeff)
    have c: "(0::rat) * 10 \<le> P" using P by simp
    from within_one_unit [OF a b c P] show ?thesis
      unfolding target P_def .
  qed
qed

lemma div_finite_representable:
  assumes "div_finite s c1 e1 c2 e2 = Inr r"
  shows "representable r"
  using assms unfolding div_finite_def Let_def
  by (auto split: if_splits prod.splits intro: dec_fix_representable)

lemma signed_quotient:
  assumes "n \<noteq> 0"
  shows "(of_int (signed st ct) :: rat) / of_int n
           = of_int (signed (st \<noteq> (n < 0)) 1) * (of_nat ct / of_nat (nat \<bar>n\<bar>))"
proof -
  have a: "(of_nat (nat \<bar>n\<bar>) :: rat) = \<bar>of_int n\<bar>"
    by simp
  show ?thesis
  proof (cases "n < 0")
    case True
    then have "\<bar>(of_int n :: rat)\<bar> = - of_int n" by simp
    with True show ?thesis
      unfolding a by (cases st) (simp_all add: signed_def)
  next
    case False
    then have "\<bar>(of_int n :: rat)\<bar> = of_int n" by simp
    with False show ?thesis
      unfolding a by (cases st) (simp_all add: signed_def)
  qed
qed

lemma dec_div_int_error:
  assumes n: "n \<noteq> 0" and rep: "representable (Finite st ct et)"
    and r: "dec_div (Finite st ct et) (dec_of_int n) = Inr q"
  shows "representable q
       \<and> (\<exists>s c e. q = Finite s c e \<and> \<bar>dval q - dval (Finite st ct et) / of_int n\<bar> < 10 powi e)"
proof -
  from r n have d: "div_finite (st \<noteq> (n < 0)) ct et (nat \<bar>n\<bar>) 0 = Inr q"
    by (simp add: dec_of_int_def)
  from div_finite_representable [OF d] have rq: "representable q" .
  then obtain s c e where q: "q = Finite s c e"
    by (cases q) simp_all
  from rep have "ct < 10 ^ prec" by simp
  then have "ndigits ct \<le> prec" by (simp add: ndigits_le_iff prec_def)
  then have nd: "ndigits ct \<le> ndigits (nat \<bar>n\<bar>) + prec + 1" by simp
  from n have c2: "0 < nat \<bar>n\<bar>" by simp
  have "dval (Finite st ct et) / of_int n = of_int (signed st ct) / of_int n * 10 powi et"
    by simp
  also have "\<dots> = of_int (signed (st \<noteq> (n < 0)) 1) * (of_nat ct / of_nat (nat \<bar>n\<bar>)) * 10 powi (et - 0)"
    by (simp only: signed_quotient [OF n] diff_zero)
  finally have v: "dval (Finite st ct et) / of_int n
      = of_int (signed (st \<noteq> (n < 0)) 1) * (of_nat ct / of_nat (nat \<bar>n\<bar>)) * 10 powi (et - 0)" .
  from div_finite_error [OF c2 nd d [unfolded q]]
  have "\<bar>dval q - dval (Finite st ct et) / of_int n\<bar> < 10 powi e"
    unfolding v q .
  with rq q show ?thesis by blast
qed

section \<open>A representable number divided by a non-zero integer\<close>







section \<open>Evaluation on concrete inputs\<close>

lemmas dec_eval = dec_fix_def round_half_even_def prec_def Emax_def Emin_def Etiny_def Etop_def
  ndigits.simps strip_zeros.simps div_finite_def signed_def dec_of_int_def dec_gt_def dec_eq_def
  Decimal_0_def Decimal_0_00_def Decimal_10_def Let_def

lemmas scenario_defs = scenario_recipe_def ingredient_A_def ingredient_B_def
  CannabisIngredient_default_def Recipe_default_def calculate_thc_dose_def calculate_cbd_dose_def

lemma scenario_sum:
  "sum_doses (cannabis_ingredients (scenario_recipe n)) Decimal_0_00 Decimal_0_00
     = Inr (Finite False 2500 (- 2), Finite False 0 (- 2))"
  by (simp add: scenario_defs dec_eval)

lemma scenario_modest: "modest 2 (scenario_recipe n)"
  by (simp add: modest_def scenario_defs Emax_def ndigits.simps)

lemma scenario_servings: "Recipe.servings (scenario_recipe n) = n"
  by (simp add: scenario_recipe_def)

lemma div_25_3:
  "dec_div (Finite False 2500 (- 2)) (dec_of_int 3) = Inr (Finite False 8333333333333333333333333333 (- 27))"
  by (simp add: dec_eval)

lemma div_25_1:
  "dec_div (Finite False 2500 (- 2)) (dec_of_int 1) = Inr (Finite False 2500 (- 2))"
  by (simp add: dec_eval)

lemma div_0_3:
  "dec_div (Finite False 0 (- 2)) (dec_of_int 3) = Inr (Finite False 0 (- 2))"
  by (simp add: dec_eval)

lemma div_0_1:
  "dec_div (Finite False 0 (- 2)) (dec_of_int 1) = Inr (Finite False 0 (- 2))"
  by (simp add: dec_eval)

lemmas recipe_eval = recipe_of_def ingredient_with_def scenario_defs calculate_total_dosage_def
  dosage_of_def dec_eval

lemma negative_recipe_dosage:
  "calculate_total_dosage (recipe_of [(ingredient_with (Finite False 25 0), Finite True 1 0)] (- 1))
     = Inr (dosage_of (Finite False 2500 (- 2)) (Finite True 0 (- 2))
              (Finite True 2500 (- 2)) (Finite False 0 (- 2)) (- 1) True)"
  by (simp add: recipe_eval)

lemma boundary_recipe_dosage:
  "calculate_total_dosage (recipe_of [(ingredient_A, Finite False 1 0)] 1)
     = Inr (dosage_of (Finite False 1000 (- 2)) (Finite False 0 (- 2))
              (Finite False 1000 (- 2)) (Finite False 0 (- 2)) 1 False)"
  by (simp add: recipe_eval)

lemma overflow_recipe_sum:
  "sum_doses (cannabis_ingredients
       (recipe_of [(ingredient_with (Finite False 1 999999), Finite False 10 0)] 0))
     Decimal_0_00 Decimal_0_00 = Inl Overflow"
  by (simp add: recipe_eval)

lemma empty_recipe_dosage:
  "calculate_total_dosage (recipe_of [] (- 2))
     = Inr (dosage_of (Finite True 0 (- 2)) (Finite True 0 (- 2))
              (Finite False 0 (- 2)) (Finite False 0 (- 2)) (- 2) False)"
  by (simp add: recipe_eval)

lemma scenario_minus_3:
  "calculate_total_dosage (scenario_recipe (- 3))
     = Inr (dosage_of (Finite True 8333333333333333333333333333 (- 27)) (Finite True 0 (- 2))
              (Finite False 2500 (- 2)) (Finite False 0 (- 2)) (- 3) False)"
  by (simp add: recipe_eval)

lemma scenario_0:
  "calculate_total_dosage (scenario_recipe 0)
     = Inr (dosage_of Decimal_0 Decimal_0 (Finite False 2500 (- 2)) (Finite False 0 (- 2)) 0 False)"
  by (simp add: recipe_eval)

lemma scenario_2:
  "calculate_total_dosage (scenario_recipe 2)
     = Inr (dosage_of (Finite False 1250 (- 2)) (Finite False 0 (- 2))
              (Finite False 2500 (- 2)) (Finite False 0 (- 2)) 2 True)"
  by (simp add: recipe_eval)

lemma scenario_1:
  "calculate_total_dosage (scenario_recipe 1)
     = Inr (dosage_of (Finite False 2500 (- 2)) (Finite False 0 (- 2))
              (Finite False 2500 (- 2)) (Finite False 0 (- 2)) 1 True)"
  by (simp add: recipe_eval)

lemma thirds_recipe_dosage:
  "calculate_total_dosage (recipe_of [(ingredient_A, Finite False 1 0)] 3)
     = Inr (dosage_of (Finite False 3333333333333333333333333333 (- 27)) (Finite False 0 (- 2))
              (Finite False 1000 (- 2)) (Finite False 0 (- 2)) 3 False)"
  by (simp add: recipe_eval)

section \<open>The two-ingredient scenario\<close>

text \<open>
  Claim C7. The recipe with ingredient A (10 mg THC per gram, 2 g) and ingredient B
  (5 mg per gram, 1 g): with 3 servings \<open>calculate_total_dosage\<close> returns a total of
  \<open>25.00\<close> mg THC, \<open>8.333333333333333333333333333\<close> mg per serving (between 8.33 and
  8.34) and no high-dose warning; with 1 serving it returns \<open>25.00\<close> mg per serving and
  the warning.
\<close>

theorem scenario_two_ingredients:
  "calculate_total_dosage (scenario_recipe 3) =
     Inr \<lparr> thc_mg_per_serving = Finite False 8333333333333333333333333333 (- 27),
           cbd_mg_per_serving = Finite False 0 (- 2),
           total_thc_mg = Finite False 2500 (- 2),
           total_cbd_mg = Finite False 0 (- 2),
           DosageInfo.servings = 3, onset_time_minutes = 60, duration_hours = 6,
           recommended_for = [], high_dose_warning = False \<rparr>
   \<and> dval (Finite False 2500 (- 2)) = 25
   \<and> 833 / 100 < dval (Finite False 8333333333333333333333333333 (- 27))
   \<and> dval (Finite False 8333333333333333333333333333 (- 27)) < 834 / 100
   \<and> calculate_total_dosage (scenario_recipe 1) =
     Inr \<lparr> thc_mg_per_serving = Finite False 2500 (- 2),
           cbd_mg_per_serving = Finite False 0 (- 2),
           total_thc_mg = Finite False 2500 (- 2),
           total_cbd_mg = Finite False 0 (- 2),
           DosageInfo.servings = 1, onset_time_minutes = 60, duration_hours = 6,
           recommended_for = [], high_dose_warning = True \<rparr>"
proof -
  have a: "calculate_total_dosage (scenario_recipe 3) =
     Inr \<lparr> thc_mg_per_serving = Finite False 8333333333333333333333333333 (- 27),
           cbd_mg_per_serving = Finite False 0 (- 2),
           total_thc_mg = Finite False 2500 (- 2),
           total_cbd_mg = Finite False 0 (- 2),
           DosageInfo.servings = 3, onset_time_minutes = 60, duration_hours = 6,
           recommended_for = [], high_dose_warning = False \<rparr>"
    unfolding calculate_total_dosage_def scenario_sum scenario_servings
    by (simp add: div_25_3 div_0_3) (simp add: dec_gt_def Decimal_10_def Let_def signed_def)
  have b: "calculate_total_dosage (scenario_recipe 1) =
     Inr \<lparr> thc_mg_per_serving = Finite False 2500 (- 2),
           cbd_mg_per_serving = Finite False 0 (- 2),
           total_thc_mg = Finite False 2500 (- 2),
           total_cbd_mg = Finite False 0 (- 2),
           DosageInfo.servings = 1, onset_time_minutes = 60, duration_hours = 6,
           recommended_for = [], high_dose_warning = True \<rparr>"
    unfolding calculate_total_dosage_def scenario_sum scenario_servings
    by (simp add: div_25_1 div_0_1) (simp add: dec_gt_def Decimal_10_def Let_def signed_def)
  have c: "dval (Finite False 2500 (- 2)) = 25"
    by (simp add: signed_def power_int_def power_divide)
  have d: "833 / 100 < dval (Finite False 8333333333333333333333333333 (- 27))"
    by (simp add: signed_def power_int_def power_divide)
  have e: "dval (Finite False 8333333333333333333333333333 (- 27)) < 834 / 100"
    by (simp add: signed_def power_int_def power_divide)
  from a b c d e show ?thesis by blast
qed

section \<open>Terpene pairing suggestions\<close>






text \<open>
  Claim C10. \<open>suggest_pairings\<close> depends only on the limonene, myrcene, caryophyllene,
  pinene and linalool fields: two profiles that agree on these five give the same result
  (the same list or the same exception), whatever their other fields hold.
\<close>

theorem suggest_pairings_five_fields:
  assumes "limonene p = limonene p'" and "myrcene p = myrcene p'"
    and "caryophyllene p = caryophyllene p'" and "pinene p = pinene p'"
    and "linalool p = linalool p'"
  shows "suggest_pairings p = suggest_pairings p'"
  unfolding suggest_pairings_def assms by (rule refl)

theorem suggest_pairings_five_fields_witness:
  "limonene (profile_with (Finite False 6 (- 1)) (Finite False 7 (- 1)))
     = limonene (profile_other (Finite False 6 (- 1)) (Finite False 7 (- 1)))
   \<and> myrcene (profile_with (Finite False 6 (- 1)) (Finite False 7 (- 1)))
     = myrcene (profile_other (Finite False 6 (- 1)) (Finite False 7 (- 1)))
   \<and> humulene (profile_with (Finite False 6 (- 1)) (Finite False 7 (- 1)))
     \<noteq> humulene (profile_other (Finite False 6 (- 1)) (Finite False 7 (- 1)))
   \<and> pairs_well_with (profile_with (Finite False 6 (- 1)) (Finite False 7 (- 1)))
     \<noteq> pairs_well_with (profile_other (Finite False 6 (- 1)) (Finite False 7 (- 1)))
   \<and> suggest_pairings (profile_with (Finite False 6 (- 1)) (Finite False 7 (- 1)))
     = suggest_pairings (profile_other (Finite False 6 (- 1)) (Finite False 7 (- 1)))"
proof -
  have "suggest_pairings (profile_with (Finite False 6 (- 1)) (Finite False 7 (- 1)))
     = suggest_pairings (profile_other (Finite False 6 (- 1)) (Finite False 7 (- 1)))"
    by (rule suggest_pairings_five_fields) (simp_all add: profile_other_def)
  then show ?thesis
    by (simp add: profile_other_def profile_with_def TerpeneProfile_default_def)
qed

section \<open>The per-serving helper\<close>







section \<open>Construction and the enumerated vocabularies\<close>

lemma RecipeCategory_call_iff:
  "RecipeCategory_call s = Inl ValueError \<longleftrightarrow>
     s \<notin> {''appetizer'', ''main_course'', ''dessert'', ''beverage'', ''snack'', ''sauce'',
           ''baked_good'', ''confection'', ''savory''}"
  by (simp add: RecipeCategory_call_def enum_call_def RecipeCategory_members_def)

lemma IngredientType_call_iff:
  "IngredientType_call s = Inl ValueError \<longleftrightarrow>
     s \<notin> {''flower'', ''concentrate'', ''distillate'', ''isolate'', ''tincture'', ''butter'',
           ''oil'', ''rso'', ''kief'', ''hash'', ''rosin'', ''sauce''}"
  by (simp add: IngredientType_call_def enum_call_def IngredientType_members_def)

text \<open>
  Claim C8, as amended. Constructing a \<open>Recipe\<close> or a \<open>CannabisIngredient\<close> never fails
  and stores the value passed for \<open>category\<close> or \<open>ingredient_type\<close> as it is, in or out
  of the vocabulary. Only the enum lookup \<open>RecipeCategory(value)\<close>,
  \<open>IngredientType(value)\<close> rejects a string: it raises \<open>ValueError\<close> exactly for the strings
  outside the vocabulary, and never a \<open>ValidationError\<close>.
\<close>

theorem construction_stores_unchecked:
  "(\<exists>r. Recipe_init uid t1 t2 v xs n = Inr r \<and> Recipe.category r = v)
   \<and> (\<exists>i. CannabisIngredient_init uid w thc cbd = Inr i \<and> ingredient_type i = w)
   \<and> (RecipeCategory_call s = Inl ValueError \<longleftrightarrow>
        s \<notin> {''appetizer'', ''main_course'', ''dessert'', ''beverage'', ''snack'', ''sauce'',
              ''baked_good'', ''confection'', ''savory''})
   \<and> (IngredientType_call s = Inl ValueError \<longleftrightarrow>
        s \<notin> {''flower'', ''concentrate'', ''distillate'', ''isolate'', ''tincture'', ''butter'',
              ''oil'', ''rso'', ''kief'', ''hash'', ''rosin'', ''sauce''})
   \<and> RecipeCategory_call s \<noteq> Inl ValidationError
   \<and> IngredientType_call s \<noteq> Inl ValidationError"
proof -
  have a: "\<exists>r. Recipe_init uid t1 t2 v xs n = Inr r \<and> Recipe.category r = v"
    by (simp add: Recipe_init_def)
  have b: "\<exists>i. CannabisIngredient_init uid w thc cbd = Inr i \<and> ingredient_type i = w"
    by (simp add: CannabisIngredient_init_def)
  have c: "RecipeCategory_call s \<noteq> Inl ValidationError"
    by (simp add: RecipeCategory_call_def enum_call_def split: option.splits)
  have d: "IngredientType_call s \<noteq> Inl ValidationError"
    by (simp add: IngredientType_call_def enum_call_def split: option.splits)
  from a b c d RecipeCategory_call_iff [of s] IngredientType_call_iff [of s]
  show ?thesis by blast
qed

text \<open>
  The claim as stated fails: \<open>Recipe(category="pizza", servings=4)\<close> is constructed, with
  the string stored, although \<open>"pizza"\<close> is no member of \<open>RecipeCategory\<close>.
\<close>

theorem construction_outside_vocabulary_succeeds:
  "RecipeCategory_call ''pizza'' = Inl ValueError
   \<and> Recipe_init 0 0 0 (Unchecked ''pizza'') [] 4 \<noteq> Inl ValidationError
   \<and> (\<exists>r. Recipe_init 0 0 0 (Unchecked ''pizza'') [] 4 = Inr r
          \<and> Recipe.category r = Unchecked ''pizza'')"
  by (simp add: RecipeCategory_call_iff Recipe_init_def)

section \<open>The high-dose warning\<close>

text \<open>
  Claim C1, as amended. Whenever \<open>calculate_total_dosage\<close> returns, \<open>high_dose_warning\<close>
  is true if and only if \<open>servings\<close> is non-zero and \<open>thc_mg_per_serving\<close> is above 10; at
  \<open>thc_mg_per_serving == 10\<close> it is false. When every potency and quantity of the recipe is
  non-negative, this is the same as: \<open>servings > 0\<close> and \<open>thc_mg_per_serving > 10\<close>.
\<close>

theorem high_dose_warning_iff:
  assumes "calculate_total_dosage r = Inr d"
  shows "(high_dose_warning d \<longleftrightarrow>
            Recipe.servings r \<noteq> 0 \<and> exceeds (thc_mg_per_serving d) 10)
       \<and> (is_finite (thc_mg_per_serving d) \<and> dval (thc_mg_per_serving d) = 10 \<longrightarrow>
            \<not> high_dose_warning d)
       \<and> ((\<forall>(i, a) \<in> set (cannabis_ingredients r). nonneg (thc_mg_per_gram i) \<and> nonneg a) \<longrightarrow>
            (high_dose_warning d \<longleftrightarrow>
               0 < Recipe.servings r \<and> exceeds (thc_mg_per_serving d) 10))"
proof -
  have main: "high_dose_warning d \<longleftrightarrow>
      Recipe.servings r \<noteq> 0 \<and> exceeds (thc_mg_per_serving d) 10"
  proof (cases "Recipe.servings r = 0")
    case True
    with calculate_total_dosage_Inr(5) [OF assms] show ?thesis by simp
  next
    case False
    from dec_gt_Inr_exceeds [OF calculate_total_dosage_Inr(8) [OF assms False]] False
    show ?thesis by simp
  qed
  have boundary: "\<not> high_dose_warning d"
    if "is_finite (thc_mg_per_serving d) \<and> dval (thc_mg_per_serving d) = 10"
  proof -
    from that have "\<not> exceeds (thc_mg_per_serving d) 10"
      by (cases "thc_mg_per_serving d") simp_all
    with main show ?thesis by simp
  qed
  have positive: "high_dose_warning d \<longleftrightarrow>
      0 < Recipe.servings r \<and> exceeds (thc_mg_per_serving d) 10"
    if nn: "\<forall>(i, a) \<in> set (cannabis_ingredients r). nonneg (thc_mg_per_gram i) \<and> nonneg a"
  proof (cases "Recipe.servings r < 0")
    case True
    from total_thc_nonneg [OF nn assms] obtain c e where "total_thc_mg d = Finite False c e"
      by blast
    from per_serving_sign [OF assms _ this] True
    obtain c' e' where "thc_mg_per_serving d = Finite True c' e'"
      by auto
    then have "\<not> exceeds (thc_mg_per_serving d) 10"
      by (simp only: not_exceeds_negative_sign not_False_eq_True)
    with main True show ?thesis by simp
  next
    case False
    with main show ?thesis by auto
  qed
  from main boundary positive show ?thesis by blast
qed

theorem high_dose_warning_iff_witness:
  "calculate_total_dosage (recipe_of [(ingredient_A, Finite False 1 0)] 1)
     = Inr (dosage_of (Finite False 1000 (- 2)) (Finite False 0 (- 2))
              (Finite False 1000 (- 2)) (Finite False 0 (- 2)) 1 False)
   \<and> is_finite (Finite False 1000 (- 2)) \<and> dval (Finite False 1000 (- 2)) = 10
   \<and> nonneg (thc_mg_per_gram ingredient_A) \<and> nonneg (Finite False 1 0)
   \<and> \<not> high_dose_warning (dosage_of (Finite False 1000 (- 2)) (Finite False 0 (- 2))
              (Finite False 1000 (- 2)) (Finite False 0 (- 2)) 1 False)
   \<and> \<not> exceeds (Finite False 1000 (- 2)) 10"
proof -
  note t = high_dose_warning_iff [OF boundary_recipe_dosage]
  have v: "dval (Finite False 1000 (- 2)) = 10"
    by (simp add: signed_def power_int_def power_divide)
  have n: "nonneg (thc_mg_per_gram ingredient_A)"
    by (simp add: ingredient_A_def)
  from t v have w: "\<not> high_dose_warning (dosage_of (Finite False 1000 (- 2)) (Finite False 0 (- 2))
              (Finite False 1000 (- 2)) (Finite False 0 (- 2)) 1 False)"
    by (simp add: dosage_of_def)
  from t w have x: "\<not> exceeds (Finite False 1000 (- 2)) 10"
    by (simp add: dosage_of_def recipe_of_def)
  from boundary_recipe_dosage v n w x show ?thesis
    by simp
qed

text \<open>
  The claim as stated fails: with \<open>servings = -1\<close> and one ingredient of 25 mg per gram
  used at \<open>-1\<close> gram, the total is \<open>-25.00\<close>, the quotient \<open>25.00\<close>, and the warning is raised
  although \<open>servings > 0\<close> does not hold.
\<close>

theorem warning_with_negative_servings:
  "calculate_total_dosage (recipe_of [(ingredient_with (Finite False 25 0), Finite True 1 0)] (- 1))
     = Inr (dosage_of (Finite False 2500 (- 2)) (Finite True 0 (- 2))
              (Finite True 2500 (- 2)) (Finite False 0 (- 2)) (- 1) True)
   \<and> high_dose_warning (dosage_of (Finite False 2500 (- 2)) (Finite True 0 (- 2))
              (Finite True 2500 (- 2)) (Finite False 0 (- 2)) (- 1) True)
   \<and> \<not> (0 < Recipe.servings
              (recipe_of [(ingredient_with (Finite False 25 0), Finite True 1 0)] (- 1))
          \<and> exceeds (Finite False 2500 (- 2)) 10)"
  using negative_recipe_dosage by (simp add: dosage_of_def recipe_of_def)

section \<open>Zero servings\<close>

text \<open>
  Claim C2, as amended. For a recipe with \<open>servings == 0\<close>, \<open>calculate_total_dosage\<close> never
  raises a division-by-zero error. When every potency and quantity is a finite number of
  modest magnitude it returns a \<open>DosageInfo\<close> with \<open>thc_mg_per_serving\<close> and
  \<open>cbd_mg_per_serving\<close> equal to \<open>Decimal("0")\<close> and \<open>high_dose_warning\<close> false. In general
  it fails exactly when the summation of the ingredient doses raises (a decimal
  \<open>Overflow\<close> or \<open>InvalidOperation\<close>), with that exception, and returns these values
  otherwise.
\<close>

theorem zero_servings_fallback:
  assumes "Recipe.servings r = 0"
  shows "calculate_total_dosage r \<noteq> Inl DivisionByZero
    \<and> (modest A r \<longrightarrow>
         (\<exists>t c. calculate_total_dosage r = Inr (dosage_of Decimal_0 Decimal_0 t c 0 False)))
    \<and> (sum_doses (cannabis_ingredients r) Decimal_0_00 Decimal_0_00 = Inr (t, c) \<longrightarrow>
         calculate_total_dosage r = Inr (dosage_of Decimal_0 Decimal_0 t c 0 False))
    \<and> (sum_doses (cannabis_ingredients r) Decimal_0_00 Decimal_0_00 = Inl e \<longrightarrow>
         calculate_total_dosage r = Inl e)
    \<and> (calculate_total_dosage r = Inr d \<longrightarrow>
         thc_mg_per_serving d = Decimal_0 \<and> cbd_mg_per_serving d = Decimal_0
         \<and> \<not> high_dose_warning d)"
proof -
  have "\<exists>t c. calculate_total_dosage r = Inr (dosage_of Decimal_0 Decimal_0 t c 0 False)"
    if "modest A r"
    using modest_sum_doses [OF that] calculate_total_dosage_zero_servings [OF assms]
    by blast
  with assms calculate_total_dosage_not_dbz [of r] calculate_total_dosage_zero_servings [of r t c]
    calculate_total_dosage_loop_error [of r e] calculate_total_dosage_Inr(3,4,5) [of r d]
  show ?thesis
    by blast
qed

theorem zero_servings_fallback_witness:
  "Recipe.servings (scenario_recipe 0) = 0
   \<and> modest 2 (scenario_recipe 0)
   \<and> (\<exists>t c. calculate_total_dosage (scenario_recipe 0)
          = Inr (dosage_of Decimal_0 Decimal_0 t c 0 False))
   \<and> sum_doses (cannabis_ingredients (scenario_recipe 0)) Decimal_0_00 Decimal_0_00
       = Inr (Finite False 2500 (- 2), Finite False 0 (- 2))
   \<and> calculate_total_dosage (scenario_recipe 0)
       = Inr (dosage_of Decimal_0 Decimal_0 (Finite False 2500 (- 2)) (Finite False 0 (- 2)) 0 False)
   \<and> Recipe.servings (recipe_of [(ingredient_with (Finite False 1 999999), Finite False 10 0)] 0) = 0
   \<and> calculate_total_dosage (recipe_of [(ingredient_with (Finite False 1 999999), Finite False 10 0)] 0)
       = Inl Overflow"
proof -
  have s0: "Recipe.servings (scenario_recipe 0) = 0"
    by (simp add: scenario_servings)
  have s1: "Recipe.servings (recipe_of [(ingredient_with (Finite False 1 999999), Finite False 10 0)] 0) = 0"
    by (simp add: recipe_of_def)
  note l1 = overflow_recipe_sum
  from zero_servings_fallback [OF s0, of _ "Finite False 2500 (- 2)" "Finite False 0 (- 2)"] scenario_sum [of 0]
  have a: "calculate_total_dosage (scenario_recipe 0)
       = Inr (dosage_of Decimal_0 Decimal_0 (Finite False 2500 (- 2)) (Finite False 0 (- 2)) 0 False)"
    by blast
  from zero_servings_fallback [OF s0, of 2] scenario_modest [of 0]
  have m: "\<exists>t c. calculate_total_dosage (scenario_recipe 0)
          = Inr (dosage_of Decimal_0 Decimal_0 t c 0 False)"
    by blast
  from zero_servings_fallback [OF s1, of _ _ _ Overflow] l1
  have b: "calculate_total_dosage (recipe_of [(ingredient_with (Finite False 1 999999), Finite False 10 0)] 0)
       = Inl Overflow"
    by blast
  from s0 scenario_modest [of 0] m scenario_sum [of 0] a s1 b show ?thesis by blast
qed

text \<open>
  The claim as stated fails: with \<open>servings = 0\<close> and one ingredient of potency
  \<open>Decimal("1E+999999")\<close> used at 10 grams, the product exceeds \<open>Emax\<close> and the call raises
  \<open>Overflow\<close>.
\<close>

theorem zero_servings_overflow:
  "Recipe.servings (recipe_of [(ingredient_with (Finite False 1 999999), Finite False 10 0)] 0) = 0
   \<and> calculate_total_dosage (recipe_of [(ingredient_with (Finite False 1 999999), Finite False 10 0)] 0)
       = Inl Overflow"
  unfolding calculate_total_dosage_def overflow_recipe_sum
  by (simp add: recipe_of_def)

section \<open>The division guard\<close>

text \<open>
  Claim C9, as amended. The guard of the division is the test \<open>servings != 0\<close>:
  \<open>calculate_total_dosage\<close> never raises a division-by-zero error, whatever the integer
  \<open>servings\<close>, and it returns for every \<open>servings\<close> when the potencies and quantities are
  finite numbers of modest magnitude. The zero fallback is taken at \<open>servings == 0\<close>; for
  every other count, negative ones included, the per-serving fields are the quotients of
  the totals by \<open>servings\<close>. With \<open>servings < 0\<close> the THC quotient carries the opposite
  sign of the total: it is at most zero when all potencies and quantities are
  non-negative, and below zero when the total is positive and the quotient does not
  underflow.
\<close>

theorem division_guard:
  "calculate_total_dosage r \<noteq> Inl DivisionByZero
   \<and> (modest A r \<longrightarrow> (\<exists>d. calculate_total_dosage r = Inr d))
   \<and> (calculate_total_dosage r = Inr d \<and> Recipe.servings r = 0 \<longrightarrow>
        thc_mg_per_serving d = Decimal_0 \<and> cbd_mg_per_serving d = Decimal_0)
   \<and> (calculate_total_dosage r = Inr d \<and> Recipe.servings r \<noteq> 0 \<longrightarrow>
        dec_div (total_thc_mg d) (dec_of_int (Recipe.servings r)) = Inr (thc_mg_per_serving d)
      \<and> dec_div (total_cbd_mg d) (dec_of_int (Recipe.servings r)) = Inr (cbd_mg_per_serving d))
   \<and> (calculate_total_dosage r = Inr d \<and> Recipe.servings r < 0 \<and> total_thc_mg d = Finite s c e \<longrightarrow>
        (\<exists>c' e'. thc_mg_per_serving d = Finite (\<not> s) c' e'))
   \<and> (calculate_total_dosage r = Inr d \<and> Recipe.servings r < 0
        \<and> (\<forall>(i, a) \<in> set (cannabis_ingredients r). nonneg (thc_mg_per_gram i) \<and> nonneg a) \<longrightarrow>
        is_finite (thc_mg_per_serving d) \<and> dval (thc_mg_per_serving d) \<le> 0)
   \<and> (calculate_total_dosage r = Inr d \<and> Recipe.servings r < 0
        \<and> total_thc_mg d = Finite s c e \<and> \<not> s \<and> 0 < c
        \<and> Etiny + int prec + int (ndigits (nat \<bar>Recipe.servings r\<bar>)) \<le> int (ndigits c) + e \<longrightarrow>
        dval (thc_mg_per_serving d) < 0)"
proof (intro conjI impI)
  assume "calculate_total_dosage r = Inr d \<and> Recipe.servings r < 0
        \<and> total_thc_mg d = Finite s c e \<and> \<not> s \<and> 0 < c
        \<and> Etiny + int prec + int (ndigits (nat \<bar>Recipe.servings r\<bar>)) \<le> int (ndigits c) + e"
  then have "calculate_total_dosage r = Inr d" and "Recipe.servings r < 0"
    and "total_thc_mg d = Finite False c e" and "0 < c"
    and "Etiny + int prec + int (ndigits (nat \<bar>Recipe.servings r\<bar>)) \<le> int (ndigits c) + e"
    by (elim conjE, simp)+
  then show "dval (thc_mg_per_serving d) < 0"
    by (rule per_serving_negative)
next
  show "calculate_total_dosage r \<noteq> Inl DivisionByZero"
    by (rule calculate_total_dosage_not_dbz)
next
  assume "modest A r"
  then show "\<exists>d. calculate_total_dosage r = Inr d"
    by (rule calculate_total_dosage_returns)
next
  assume "calculate_total_dosage r = Inr d \<and> Recipe.servings r = 0"
  then show "thc_mg_per_serving d = Decimal_0" "cbd_mg_per_serving d = Decimal_0"
    using calculate_total_dosage_Inr(3,4) by blast+
next
  assume "calculate_total_dosage r = Inr d \<and> Recipe.servings r \<noteq> 0"
  then show "dec_div (total_thc_mg d) (dec_of_int (Recipe.servings r)) = Inr (thc_mg_per_serving d)"
    "dec_div (total_cbd_mg d) (dec_of_int (Recipe.servings r)) = Inr (cbd_mg_per_serving d)"
    using calculate_total_dosage_Inr(6,7) by blast+
next
  assume a: "calculate_total_dosage r = Inr d \<and> Recipe.servings r < 0 \<and> total_thc_mg d = Finite s c e"
  then have "Recipe.servings r \<noteq> 0" by simp
  from per_serving_sign [OF _ this, of d s c e] a
  show "\<exists>c' e'. thc_mg_per_serving d = Finite (\<not> s) c' e'"
    by simp
next
  assume a: "calculate_total_dosage r = Inr d \<and> Recipe.servings r < 0
        \<and> (\<forall>(i, a) \<in> set (cannabis_ingredients r). nonneg (thc_mg_per_gram i) \<and> nonneg a)"
  then have n: "Recipe.servings r \<noteq> 0" by simp
  from a total_thc_nonneg [of r d] obtain c e where "total_thc_mg d = Finite False c e"
    by blast
  from per_serving_sign [OF _ n this] a
  obtain c' e' where p: "thc_mg_per_serving d = Finite True c' e'"
    by auto
  show "is_finite (thc_mg_per_serving d)" "dval (thc_mg_per_serving d) \<le> 0"
    unfolding p using dval_negative_sign [of c' e'] by simp_all
qed

theorem division_guard_witness:
  "calculate_total_dosage (scenario_recipe 0)
     = Inr (dosage_of Decimal_0 Decimal_0 (Finite False 2500 (- 2)) (Finite False 0 (- 2)) 0 False)
   \<and> Recipe.servings (scenario_recipe 0) = 0
   \<and> calculate_total_dosage (scenario_recipe (- 3))
     = Inr (dosage_of (Finite True 8333333333333333333333333333 (- 27)) (Finite True 0 (- 2))
              (Finite False 2500 (- 2)) (Finite False 0 (- 2)) (- 3) False)
   \<and> Recipe.servings (scenario_recipe (- 3)) < 0
   \<and> nonneg (thc_mg_per_gram ingredient_A) \<and> nonneg (Finite False 2 0)
   \<and> nonneg (thc_mg_per_gram ingredient_B) \<and> nonneg (Finite False 1 0)
   \<and> dec_div (Finite False 2500 (- 2)) (dec_of_int (- 3))
       = Inr (Finite True 8333333333333333333333333333 (- 27))
   \<and> dval (Finite True 8333333333333333333333333333 (- 27)) \<le> 0
   \<and> calculate_total_dosage (scenario_recipe (- 3)) \<noteq> Inl DivisionByZero
   \<and> modest 2 (scenario_recipe (- 3))
   \<and> (\<exists>d. calculate_total_dosage (scenario_recipe (- 3)) = Inr d)
   \<and> Etiny + int prec + int (ndigits (nat \<bar>Recipe.servings (scenario_recipe (- 3))\<bar>))
       \<le> int (ndigits 2500) + (- 2)
   \<and> dval (Finite True 8333333333333333333333333333 (- 27)) < 0"
proof -
  let ?d = "dosage_of (Finite True 8333333333333333333333333333 (- 27)) (Finite True 0 (- 2))
              (Finite False 2500 (- 2)) (Finite False 0 (- 2)) (- 3) False"
  note t = division_guard [of "scenario_recipe (- 3)" 2 ?d False 2500 "- 2"]
  note t0 = division_guard [of "scenario_recipe 0" 2
      "dosage_of Decimal_0 Decimal_0 (Finite False 2500 (- 2)) (Finite False 0 (- 2)) 0 False"]
  from t scenario_modest [of "- 3"] have ex: "\<exists>d. calculate_total_dosage (scenario_recipe (- 3)) = Inr d"
    by blast
  have s: "Recipe.servings (scenario_recipe (- 3)) < 0" "Recipe.servings (scenario_recipe 0) = 0"
    by (simp_all add: scenario_servings)
  have n: "nonneg (thc_mg_per_gram ingredient_A)" "nonneg (Finite False 2 0)"
    "nonneg (thc_mg_per_gram ingredient_B)" "nonneg (Finite False 1 0)"
    by (simp_all add: ingredient_A_def ingredient_B_def)
  then have ns: "\<forall>(i, a) \<in> set (cannabis_ingredients (scenario_recipe (- 3))).
      nonneg (thc_mg_per_gram i) \<and> nonneg a"
    by (simp add: scenario_recipe_def)
  have u: "Etiny + int prec + int (ndigits (nat \<bar>Recipe.servings (scenario_recipe (- 3))\<bar>))
       \<le> int (ndigits 2500) + (- 2)"
    by (simp add: scenario_servings Etiny_def Emin_def prec_def ndigits.simps)
  from t scenario_minus_3 s(1) u
  have sn: "dval (Finite True 8333333333333333333333333333 (- 27)) < 0"
    by (simp add: dosage_of_def)
  from t scenario_minus_3 s(1)
  have d: "dec_div (Finite False 2500 (- 2)) (dec_of_int (- 3))
       = Inr (Finite True 8333333333333333333333333333 (- 27))"
    by (simp add: dosage_of_def scenario_servings)
  from t scenario_minus_3 s(1) ns
  have v: "dval (Finite True 8333333333333333333333333333 (- 27)) \<le> 0"
    by (simp add: dosage_of_def)
  from t have z: "calculate_total_dosage (scenario_recipe (- 3)) \<noteq> Inl DivisionByZero"
    by blast
  from t0 scenario_0 s(2) have "thc_mg_per_serving
      (dosage_of Decimal_0 Decimal_0 (Finite False 2500 (- 2)) (Finite False 0 (- 2)) 0 False) = Decimal_0"
    by blast
  with scenario_0 scenario_minus_3 s n d v z scenario_modest [of "- 3"] ex u sn show ?thesis
    by simp
qed

text \<open>
  The claim as stated fails: the recipe without cannabis ingredients and \<open>servings = -2\<close>
  gets \<open>thc_mg_per_serving = Decimal("-0.00")\<close>, which is not below zero and equals the
  fallback value \<open>Decimal("0")\<close>.
\<close>

theorem negative_servings_zero_total:
  "calculate_total_dosage (recipe_of [] (- 2))
     = Inr (dosage_of (Finite True 0 (- 2)) (Finite True 0 (- 2))
              (Finite False 0 (- 2)) (Finite False 0 (- 2)) (- 2) False)
   \<and> Recipe.servings (recipe_of [] (- 2)) < 0
   \<and> \<not> dval (Finite True 0 (- 2)) < 0
   \<and> dec_gt Decimal_0 (Finite True 0 (- 2)) = Inr False
   \<and> dec_eq (Finite True 0 (- 2)) Decimal_0 = Inr True"
  using empty_recipe_dosage
  by (simp add: recipe_of_def signed_def dec_gt_def dec_eq_def Decimal_0_def Let_def)

section \<open>The dose of one ingredient\<close>





section \<open>Per-serving value times servings\<close>

text \<open>
  Claim C3, as amended. For a recipe with \<open>servings > 0\<close> and a finite total,
  \<open>thc_mg_per_serving\<close> is the decimal quotient \<open>total_thc_mg / servings\<close>: a number of at
  most 28 digits that differs from the exact quotient by less than one unit of its last
  digit. Whenever the quotient is exact (its value times \<open>servings\<close> is the total),
  \<open>thc_mg_per_serving * servings == total_thc_mg\<close> holds; in particular for
  \<open>servings == 1\<close>, where the per-serving value is the total itself. When the quotient is
  rounded the product need not return the total.
\<close>

theorem per_serving_times_servings:
  assumes ret: "calculate_total_dosage r = Inr d" and pos: "0 < Recipe.servings r"
    and fin: "is_finite (total_thc_mg d)"
  shows "dec_div (total_thc_mg d) (dec_of_int (Recipe.servings r)) = Inr (thc_mg_per_serving d)
       \<and> is_finite (thc_mg_per_serving d) \<and> representable (thc_mg_per_serving d)
       \<and> (\<exists>s c e. thc_mg_per_serving d = Finite s c e
             \<and> \<bar>dval (thc_mg_per_serving d)
                  - dval (total_thc_mg d) / of_int (Recipe.servings r)\<bar> < 10 powi e)
       \<and> (dval (thc_mg_per_serving d) * of_int (Recipe.servings r) = dval (total_thc_mg d) \<longrightarrow>
            (\<exists>p. dec_mul (thc_mg_per_serving d) (dec_of_int (Recipe.servings r)) = Inr p
               \<and> dec_eq (total_thc_mg d) p = Inr True))
       \<and> (Recipe.servings r = 1 \<longrightarrow>
            thc_mg_per_serving d = total_thc_mg d
            \<and> dec_mul (thc_mg_per_serving d) (dec_of_int 1) = Inr (total_thc_mg d))"
proof -
  let ?n = "Recipe.servings r"
  from pos have n0: "?n \<noteq> 0" by simp
  from fin obtain st ct et where t: "total_thc_mg d = Finite st ct et"
    by (cases "total_thc_mg d") auto
  from total_thc_representable [OF ret fin] have rep: "representable (Finite st ct et)"
    by (simp add: t)
  have dv: "dec_div (total_thc_mg d) (dec_of_int ?n) = Inr (thc_mg_per_serving d)"
    using calculate_total_dosage_Inr(6) [OF ret] n0 by simp
  with dec_div_int_result [OF n0, of st ct et] pos
  obtain cp ep where p: "thc_mg_per_serving d = Finite st cp ep"
    by (auto simp: t)
  have exact: "\<exists>q. dec_mul (thc_mg_per_serving d) (dec_of_int ?n) = Inr q
               \<and> dec_eq (total_thc_mg d) q = Inr True"
    if h: "dval (thc_mg_per_serving d) * of_int ?n = dval (total_thc_mg d)"
  proof -
    have m: "dec_mul (thc_mg_per_serving d) (dec_of_int ?n)
               = dec_fix (st \<noteq> (?n < 0)) (cp * nat \<bar>?n\<bar>) (ep + 0)"
      by (simp add: p dec_of_int_def)
    have "dval (Finite (st \<noteq> (?n < 0)) (cp * nat \<bar>?n\<bar>) (ep + 0))
            = dval (Finite st cp ep) * dval (Finite (?n < 0) (nat \<bar>?n\<bar>) 0)"
      by (rule dval_mul)
    also have "dval (Finite (?n < 0) (nat \<bar>?n\<bar>) 0) = of_int ?n"
      using dval_of_int [of ?n] by (simp only: dec_of_int_def)
    finally have "dval (Finite (st \<noteq> (?n < 0)) (cp * nat \<bar>?n\<bar>) (ep + 0)) = dval (Finite st ct et)"
      using h by (simp only: p t)
    from dec_fix_representable_value [OF rep this]
    obtain c'' e'' where
      q: "dec_fix (st \<noteq> (?n < 0)) (cp * nat \<bar>?n\<bar>) (ep + 0) = Inr (Finite (st \<noteq> (?n < 0)) c'' e'')"
      and v: "dval (Finite (st \<noteq> (?n < 0)) c'' e'') = dval (Finite st ct et)"
      by blast
    have "dec_eq (total_thc_mg d) (Finite (st \<noteq> (?n < 0)) c'' e'') = Inr True"
      unfolding t dec_eq_finite v by simp
    with m q show ?thesis by simp
  qed
  have one: "thc_mg_per_serving d = total_thc_mg d
      \<and> dec_mul (thc_mg_per_serving d) (dec_of_int 1) = Inr (total_thc_mg d)"
    if h: "?n = 1"
  proof -
    from dv h dec_div_one [OF rep] have e: "thc_mg_per_serving d = total_thc_mg d"
      by (simp add: t)
    have "dec_mul (Finite st ct et) (dec_of_int 1) = dec_fix st ct et"
      by (simp add: dec_of_int_def)
    with dec_fix_id [OF rep] e t show ?thesis by simp
  qed
  from p have pf: "is_finite (thc_mg_per_serving d)" by simp
  have err: "representable (thc_mg_per_serving d)
       \<and> (\<exists>s c e. thc_mg_per_serving d = Finite s c e
             \<and> \<bar>dval (thc_mg_per_serving d)
                  - dval (total_thc_mg d) / of_int (Recipe.servings r)\<bar> < 10 powi e)"
    using dec_div_int_error [OF n0 rep, of "thc_mg_per_serving d"] dv
    unfolding t by blast
  from dv pf err exact one show ?thesis
    by blast
qed

theorem per_serving_times_servings_witness:
  "calculate_total_dosage (scenario_recipe 2)
     = Inr (dosage_of (Finite False 1250 (- 2)) (Finite False 0 (- 2))
              (Finite False 2500 (- 2)) (Finite False 0 (- 2)) 2 True)
   \<and> 0 < Recipe.servings (scenario_recipe 2)
   \<and> is_finite (Finite False 2500 (- 2))
   \<and> dval (Finite False 1250 (- 2)) * 2 = dval (Finite False 2500 (- 2))
   \<and> (\<exists>p. dec_mul (Finite False 1250 (- 2)) (dec_of_int 2) = Inr p
          \<and> dec_eq (Finite False 2500 (- 2)) p = Inr True)
   \<and> calculate_total_dosage (scenario_recipe 1)
     = Inr (dosage_of (Finite False 2500 (- 2)) (Finite False 0 (- 2))
              (Finite False 2500 (- 2)) (Finite False 0 (- 2)) 1 True)
   \<and> Recipe.servings (scenario_recipe 1) = 1
   \<and> dec_mul (Finite False 2500 (- 2)) (dec_of_int 1) = Inr (Finite False 2500 (- 2))"
proof -
  let ?d2 = "dosage_of (Finite False 1250 (- 2)) (Finite False 0 (- 2))
              (Finite False 2500 (- 2)) (Finite False 0 (- 2)) 2 True"
  let ?d1 = "dosage_of (Finite False 2500 (- 2)) (Finite False 0 (- 2))
              (Finite False 2500 (- 2)) (Finite False 0 (- 2)) 1 True"
  have s2: "0 < Recipe.servings (scenario_recipe 2)" and s1: "0 < Recipe.servings (scenario_recipe 1)"
    and s1': "Recipe.servings (scenario_recipe 1) = 1" and s2': "Recipe.servings (scenario_recipe 2) = 2"
    by (simp_all add: scenario_servings)
  have f2: "is_finite (total_thc_mg ?d2)" and f1: "is_finite (total_thc_mg ?d1)"
    by (simp_all add: dosage_of_def)
  have v: "dval (Finite False 1250 (- 2)) * 2 = dval (Finite False 2500 (- 2))"
    by (simp add: signed_def power_int_def power_divide)
  note t2 = per_serving_times_servings [OF scenario_2 s2 f2]
  note t1 = per_serving_times_servings [OF scenario_1 s1 f1]
  from t2 v have a: "\<exists>p. dec_mul (Finite False 1250 (- 2)) (dec_of_int 2) = Inr p
          \<and> dec_eq (Finite False 2500 (- 2)) p = Inr True"
    unfolding s2' by (simp add: dosage_of_def)
  from t1 s1' have b: "dec_mul (Finite False 2500 (- 2)) (dec_of_int 1) = Inr (Finite False 2500 (- 2))"
    by (simp add: dosage_of_def)
  from scenario_2 s2 v a scenario_1 s1' b show ?thesis
    by simp
qed

text \<open>
  The claim as stated fails: one ingredient of 10 mg per gram at 1 gram and 3 servings
  gives the total \<open>10.00\<close> and \<open>3.333333333333333333333333333\<close> per serving, and three times
  that is \<open>9.999999999999999999999999999\<close>, which is not equal to \<open>10.00\<close>.
\<close>

theorem per_serving_times_servings_loses_a_digit:
  "calculate_total_dosage (recipe_of [(ingredient_A, Finite False 1 0)] 3)
     = Inr (dosage_of (Finite False 3333333333333333333333333333 (- 27)) (Finite False 0 (- 2))
              (Finite False 1000 (- 2)) (Finite False 0 (- 2)) 3 False)
   \<and> 0 < Recipe.servings (recipe_of [(ingredient_A, Finite False 1 0)] 3)
   \<and> dec_mul (Finite False 3333333333333333333333333333 (- 27)) (dec_of_int 3)
       = Inr (Finite False 9999999999999999999999999999 (- 27))
   \<and> dec_eq (Finite False 1000 (- 2)) (Finite False 9999999999999999999999999999 (- 27))
       = Inr False"
proof -
  have a: "0 < Recipe.servings (recipe_of [(ingredient_A, Finite False 1 0)] 3)"
    by (simp add: recipe_of_def)
  have b: "dec_mul (Finite False 3333333333333333333333333333 (- 27)) (dec_of_int 3)
       = Inr (Finite False 9999999999999999999999999999 (- 27))"
    by (simp add: dec_eval)
  have c: "dec_eq (Finite False 1000 (- 2)) (Finite False 9999999999999999999999999999 (- 27))
       = Inr False"
    by (simp add: dec_eval)
  from thirds_recipe_dosage a b c show ?thesis by blast
qed

end
